theory Spec2Isabelle
  imports Complex_Main "HOL-Library.Multiset"
begin

section \<open>JavaScript values used by the controller\<close>

text \<open>
  The controller of \<^verbatim>\<open>src/App.tsx\<close> computes with JavaScript numbers and strings.
  Every number it handles is either an integer (seconds, caret positions, bandwidths)
  or the result of arithmetic on \<^verbatim>\<open>undefined\<close>, which is \<^verbatim>\<open>NaN\<close>. A number is
  therefore modelled as \<open>NaN\<close> or an exact integer; this is what the code computes as long
  as the integers stay inside the range that a double represents exactly (below \<open>2^53\<close>),
  as durations, caret positions and bandwidths do. The two functions of the time codec
  are modelled a second time in double precision, with the rounding of every operation,
  for the property that speaks of every integer.
  A string is a list of code units, a \<^typ>\<open>char\<close> standing for the code unit of the same
  number.
\<close>

datatype jsnum = NaN | Num int

text \<open>Comparison and arithmetic: every comparison with \<^verbatim>\<open>NaN\<close> is false, every sum or
  product with \<^verbatim>\<open>NaN\<close> is \<^verbatim>\<open>NaN\<close>.\<close>

fun js_ge :: "jsnum \<Rightarrow> jsnum \<Rightarrow> bool" where
  "js_ge (Num a) (Num b) = (a \<ge> b)"
| "js_ge _ _ = False"

fun js_gt :: "jsnum \<Rightarrow> jsnum \<Rightarrow> bool" where
  "js_gt (Num a) (Num b) = (a > b)"
| "js_gt _ _ = False"

fun js_add :: "jsnum \<Rightarrow> jsnum \<Rightarrow> jsnum" where
  "js_add (Num a) (Num b) = Num (a + b)"
| "js_add _ _ = NaN"

fun js_sub :: "jsnum \<Rightarrow> jsnum \<Rightarrow> jsnum" where
  "js_sub (Num a) (Num b) = Num (a - b)"
| "js_sub _ _ = NaN"

fun js_mul :: "jsnum \<Rightarrow> jsnum \<Rightarrow> jsnum" where
  "js_mul (Num a) (Num b) = Num (a * b)"
| "js_mul _ _ = NaN"

text \<open>\<^verbatim>\<open>Math.max(0, x)\<close>.\<close>

fun js_max0 :: "jsnum \<Rightarrow> jsnum" where
  "js_max0 (Num a) = Num (max 0 a)"
| "js_max0 NaN = NaN"

text \<open>\<^verbatim>\<open>Math.floor(x / k)\<close> for a positive integer constant \<open>k\<close>.\<close>

fun js_floor_div :: "jsnum \<Rightarrow> int \<Rightarrow> jsnum" where
  "js_floor_div (Num a) k = Num (a div k)"
| "js_floor_div NaN k = NaN"

text \<open>\<^verbatim>\<open>x % k\<close>: the remainder has the sign of the dividend.\<close>

fun js_rem :: "jsnum \<Rightarrow> int \<Rightarrow> jsnum" where
  "js_rem (Num a) k = Num (if 0 \<le> a then a mod k else - ((- a) mod k))"
| "js_rem NaN k = NaN"

text \<open>\<^verbatim>\<open>x || 0\<close> on a number: \<^verbatim>\<open>NaN\<close> and \<open>0\<close> are falsy.\<close>

fun orZero :: "jsnum \<Rightarrow> int" where
  "orZero NaN = 0"
| "orZero (Num a) = a"

subsection \<open>Strings\<close>

text \<open>\<^verbatim>\<open>String(v)\<close> of an integer is its decimal numeral, with a minus sign when negative.\<close>

fun showNat :: "nat \<Rightarrow> string" where
  "showNat n = (if n < 10 then [char_of (48 + n)]
                else showNat (n div 10) @ [char_of (48 + n mod 10)])"

declare showNat.simps [simp del]

fun toString :: "jsnum \<Rightarrow> string" where
  "toString NaN = ''NaN''"
| "toString (Num a) = (if a < 0 then CHR ''-'' # showNat (nat (- a)) else showNat (nat a))"

text \<open>\<^verbatim>\<open>s.padStart(2, "0")\<close>.\<close>

definition padStart2 :: "string \<Rightarrow> string" where
  "padStart2 s = replicate (2 - length s) (CHR ''0'') @ s"

text \<open>\<^verbatim>\<open>s.split(":")\<close>, for a separator of one character: the result is never empty.\<close>

fun js_split :: "char \<Rightarrow> string \<Rightarrow> string list" where
  "js_split sep [] = [ [] ]"
| "js_split sep (c # cs) =
     (if c = sep then [] # js_split sep cs
      else (case js_split sep cs of
              [] \<Rightarrow> [ [c] ]
            | p # ps \<Rightarrow> (c # p) # ps))"

text \<open>\<^verbatim>\<open>xs[i]\<close>: \<^verbatim>\<open>undefined\<close> out of range.\<close>

definition nth_opt :: "'a list \<Rightarrow> nat \<Rightarrow> 'a option" where
  "nth_opt xs i = (if i < length xs then Some (xs ! i) else None)"

text \<open>\<^verbatim>\<open>s.charAt(i)\<close>: the empty string out of range.\<close>

definition charAt :: "string \<Rightarrow> nat \<Rightarrow> string" where
  "charAt s i = (if i < length s then [s ! i] else [])"

subsection \<open>\<^verbatim>\<open>parseInt\<close> without a radix\<close>

text \<open>
  \<^verbatim>\<open>parseInt(s)\<close> skips leading white space, reads an optional sign, switches to
  radix 16 after a \<^verbatim>\<open>0x\<close> or \<^verbatim>\<open>0X\<close> prefix, and converts the longest prefix of digits
  of the radix; with no digit the result is \<^verbatim>\<open>NaN\<close>. Whatever follows the digits is
  ignored.
\<close>

definition isWhiteSpace :: "char \<Rightarrow> bool" where
  "isWhiteSpace c =
     (c \<in> {CHR 0x09, CHR 0x0A, CHR 0x0B, CHR 0x0C, CHR 0x0D, CHR 0x20, CHR 0xA0})"

definition digitValue :: "char \<Rightarrow> nat option" where
  "digitValue c =
     (let k = (of_char c :: nat) in
      if 48 \<le> k \<and> k \<le> 57 then Some (k - 48)
      else if 97 \<le> k \<and> k \<le> 102 then Some (k - 87)
      else if 65 \<le> k \<and> k \<le> 70 then Some (k - 55)
      else None)"

definition isRadixDigit :: "nat \<Rightarrow> char \<Rightarrow> bool" where
  "isRadixDigit R c = (case digitValue c of None \<Rightarrow> False | Some v \<Rightarrow> v < R)"

definition digitsToNat :: "nat \<Rightarrow> string \<Rightarrow> nat" where
  "digitsToNat R Z =
     foldl (\<lambda>acc c. acc * R + (case digitValue c of None \<Rightarrow> 0 | Some v \<Rightarrow> v)) 0 Z"

definition parseInt :: "string \<Rightarrow> jsnum" where
  "parseInt str =
     (let S = dropWhile isWhiteSpace str;
          negative = (take 1 S = ''-'');
          S1 = (if take 1 S = ''+'' \<or> take 1 S = ''-'' then drop 1 S else S);
          hex = (take 2 S1 = ''0x'' \<or> take 2 S1 = ''0X'');
          R = (if hex then 16 else 10);
          S2 = (if hex then drop 2 S1 else S1);
          Z = takeWhile (isRadixDigit R) S2
      in if Z = [] then NaN
         else Num ((if negative then - 1 else 1) * int (digitsToNat R Z)))"

section \<open>Time codec\<close>

text \<open>
  \<^verbatim>\<open>
  function secondsToHms(sec: number): string {
    const h = Math.floor(sec / 3600);
    const m = Math.floor((sec % 3600) / 60);
    const s = sec % 60;
    return [h, m, s].map((v) => String(v).padStart(2, "0")).join(":");
  }\<close>
\<close>

definition secondsToHms :: "jsnum \<Rightarrow> string" where
  "secondsToHms sec =
     (let h = js_floor_div sec 3600;
          m = js_floor_div (js_rem sec 3600) 60;
          s = js_rem sec 60
      in padStart2 (toString h) @ '':'' @ padStart2 (toString m) @ '':'' @ padStart2 (toString s))"

text \<open>
  \<^verbatim>\<open>
  function hmsToSeconds(hms: string): number {
    if (!hms || !hms.includes(":")) return 0;
    const parts = hms.split(":").map((p) => parseInt(p) || 0);
    return parts[0] * 3600 + parts[1] * 60 + parts[2];
  }\<close>
  An index past the end of \<^verbatim>\<open>parts\<close> reads \<^verbatim>\<open>undefined\<close>, and arithmetic on it gives
  \<^verbatim>\<open>NaN\<close>.
\<close>

definition part_num :: "int list \<Rightarrow> nat \<Rightarrow> jsnum" where
  "part_num parts i = (case nth_opt parts i of None \<Rightarrow> NaN | Some v \<Rightarrow> Num v)"

definition hmsToSeconds :: "string \<Rightarrow> jsnum" where
  "hmsToSeconds hms =
     (if hms = [] \<or> CHR '':'' \<notin> set hms then Num 0
      else let parts = map (\<lambda>p. orZero (parseInt p)) (js_split (CHR '':'') hms)
           in js_add (js_add (js_mul (part_num parts 0) (Num 3600))
                             (js_mul (part_num parts 1) (Num 60)))
                     (part_num parts 2))"

section \<open>The time codec in double precision\<close>

text \<open>
  A JavaScript number is an IEEE 754 double. The values that the time codec meets are
  \<^verbatim>\<open>NaN\<close>, the two infinities and doubles with an integer value; \<open>D_Int a\<close> stands for
  the double of value \<open>a\<close>, and every operation below returns such a double. Negative
  zero is not told apart from zero: it prints as \<^verbatim>\<open>0\<close> and adds, multiplies and compares as
  zero does.
\<close>

datatype double = D_NaN | D_Inf bool | D_Int int

text \<open>\<open>pow2 e\<close> is \<open>2\<close> to the power \<open>e\<close>, and \<open>ilog2 x\<close> the exponent of a positive \<open>x\<close>:
  the \<open>e\<close> with \<open>2^e \<le> x < 2^(e+1)\<close>, found by halving or doubling.\<close>

definition pow2 :: "int \<Rightarrow> rat" where
  "pow2 e = (if 0 \<le> e then 2 ^ nat e else 1 / 2 ^ nat (- e))"

function log2_up :: "rat \<Rightarrow> int" where
  "log2_up x = (if x < 2 then 0 else 1 + log2_up (x / 2))"
  by pat_completeness auto
termination
proof (relation "measure (\<lambda>x. nat \<lfloor>x\<rfloor>)")
  show "wf (measure (\<lambda>x. nat \<lfloor>x\<rfloor>))" by simp
next
  fix x :: rat
  assume "\<not> x < 2"
  then have x: "2 \<le> x" by simp
  then have "\<lfloor>x / 2\<rfloor> < \<lfloor>x\<rfloor>" by linarith
  moreover have "0 < \<lfloor>x\<rfloor>" using x by linarith
  ultimately show "(x / 2, x) \<in> measure (\<lambda>x. nat \<lfloor>x\<rfloor>)" by simp
qed

function log2_down :: "rat \<Rightarrow> int" where
  "log2_down x = (if x \<le> 0 \<or> 1 \<le> x then 0 else log2_down (2 * x) - 1)"
  by pat_completeness auto
termination
proof (relation "measure (\<lambda>x. nat \<lceil>1 / x\<rceil>)")
  show "wf (measure (\<lambda>x. nat \<lceil>1 / x\<rceil>))" by simp
next
  fix x :: rat
  assume "\<not> (x \<le> 0 \<or> 1 \<le> x)"
  then have x: "0 < x" "x < 1" by simp_all
  define y where "y = 1 / x"
  have y: "1 < y" using x by (simp add: y_def)
  have h: "1 / (2 * x) = y / 2" by (simp add: y_def)
  have "\<lceil>y / 2\<rceil> < \<lceil>y\<rceil>"
  proof (cases "y \<le> 2")
    case True
    then have "\<lceil>y / 2\<rceil> \<le> 1" by (simp add: ceiling_le_iff)
    moreover have "1 < \<lceil>y\<rceil>" using y by (simp add: less_ceiling_iff)
    ultimately show ?thesis by linarith
  next
    case False
    then show ?thesis by linarith
  qed
  then have lt: "\<lceil>1 / (2 * x)\<rceil> < \<lceil>1 / x\<rceil>"
    unfolding h by (simp add: y_def)
  have pos: "0 < \<lceil>1 / x\<rceil>" using y unfolding y_def by linarith
  show "(2 * x, x) \<in> measure (\<lambda>x. nat \<lceil>1 / x\<rceil>)"
    using lt pos by simp
qed

declare log2_up.simps [simp del] log2_down.simps [simp del]

definition ilog2 :: "rat \<Rightarrow> int" where
  "ilog2 x = (if 1 \<le> x then log2_up x else log2_down x)"

text \<open>Rounding to the nearest integer, a tie to the even one.\<close>

definition rne :: "rat \<Rightarrow> int" where
  "rne y = (let f = \<lfloor>y\<rfloor>; d = y - of_int f
            in if d < 1 / 2 then f else if 1 / 2 < d then f + 1
               else if even f then f else f + 1)"

text \<open>
  Rounding to the nearest double, a tie to the even significand: the result is a
  multiple of the unit in the last of 53 binary places (of \<open>2^-1074\<close> below the normal
  range). A result of magnitude \<open>2^1024\<close> or more is an infinity.
\<close>

definition fl :: "rat \<Rightarrow> rat" where
  "fl x = (if x = 0 then 0
           else let u = pow2 (max (ilog2 \<bar>x\<bar>) (- 1022) - 52)
                in u * of_int (rne (x / u)))"

definition roundInt :: "int \<Rightarrow> double" where
  "roundInt n = (let y = fl (of_int n)
                 in if 2 ^ 1024 \<le> \<bar>y\<bar> then D_Inf (n < 0) else D_Int \<lfloor>y\<rfloor>)"

text \<open>
  \<^verbatim>\<open>String(v)\<close> of a double with an integer value: the decimal numeral with the fewest
  significant digits that still rounds to \<open>v\<close> (the closest such, the even one on a tie),
  filled with zeros up to 21 digits and written with an exponent beyond. Below \<open>2^53\<close>
  every integer is a double of its own, and that numeral is the integer's.
\<close>

definition roundsTo :: "nat \<Rightarrow> nat \<Rightarrow> bool" where
  "roundsTo c v = (roundInt (int c) = D_Int (int v))"

definition pickDigits :: "nat \<Rightarrow> nat \<Rightarrow> nat option" where
  "pickDigits v k =
     (let p = 10 ^ (length (showNat v) - k);
          c1 = (v div p) * p;
          c2 = c1 + p
      in if roundsTo c1 v \<and> roundsTo c2 v
         then (if v - c1 < c2 - v then Some c1
               else if c2 - v < v - c1 then Some c2
               else if even (c1 div p) then Some c1 else Some c2)
         else if roundsTo c1 v then Some c1
         else if roundsTo c2 v then Some c2
         else None)"

fun shortestFrom :: "nat \<Rightarrow> nat \<Rightarrow> nat \<Rightarrow> nat" where
  "shortestFrom 0 k v = v"
| "shortestFrom (Suc n) k v =
     (case pickDigits v k of Some c \<Rightarrow> c | None \<Rightarrow> shortestFrom n (Suc k) v)"

definition shortestDigits :: "nat \<Rightarrow> nat" where
  "shortestDigits v = shortestFrom 17 1 v"

definition showDouble :: "nat \<Rightarrow> string" where
  "showDouble v =
     (if v < 2 ^ 53 then showNat v
      else let ds = showNat (shortestDigits v);
               n = length ds;
               sig = rev (dropWhile (\<lambda>c. c = CHR ''0'') (rev ds))
           in if n \<le> 21 then ds
              else (case sig of
                      [] \<Rightarrow> []
                    | d # rest \<Rightarrow> (if rest = [] then [d] else d # CHR ''.'' # rest))
                   @ ''e+'' @ showNat (n - 1))"

fun toString64 :: "double \<Rightarrow> string" where
  "toString64 D_NaN = ''NaN''"
| "toString64 (D_Inf neg) = (if neg then ''-Infinity'' else ''Infinity'')"
| "toString64 (D_Int a) =
     (if a < 0 then CHR ''-'' # showDouble (nat (- a)) else showDouble (nat a))"

text \<open>\<^verbatim>\<open>Math.floor(x / k)\<close>, \<^verbatim>\<open>x % k\<close> and \<^verbatim>\<open>x * k\<close> for a positive integer constant \<open>k\<close>, the
  sum of two numbers, and \<^verbatim>\<open>x || 0\<close>. The quotient and the product are rounded once, the
  remainder is exact.\<close>

fun d_floor_div :: "double \<Rightarrow> int \<Rightarrow> double" where
  "d_floor_div (D_Int a) k = D_Int \<lfloor>fl (of_int a / of_int k)\<rfloor>"
| "d_floor_div (D_Inf neg) k = D_Inf neg"
| "d_floor_div D_NaN k = D_NaN"

fun d_rem :: "double \<Rightarrow> int \<Rightarrow> double" where
  "d_rem (D_Int a) k = D_Int (if 0 \<le> a then a mod k else - ((- a) mod k))"
| "d_rem (D_Inf neg) k = D_NaN"
| "d_rem D_NaN k = D_NaN"

fun d_mul :: "double \<Rightarrow> int \<Rightarrow> double" where
  "d_mul (D_Int a) k = roundInt (a * k)"
| "d_mul (D_Inf neg) k = D_Inf neg"
| "d_mul D_NaN k = D_NaN"

fun d_add :: "double \<Rightarrow> double \<Rightarrow> double" where
  "d_add (D_Int a) (D_Int b) = roundInt (a + b)"
| "d_add (D_Inf s) (D_Inf t) = (if s = t then D_Inf s else D_NaN)"
| "d_add (D_Inf s) (D_Int b) = D_Inf s"
| "d_add (D_Int a) (D_Inf t) = D_Inf t"
| "d_add _ _ = D_NaN"

fun d_orZero :: "double \<Rightarrow> double" where
  "d_orZero D_NaN = D_Int 0"
| "d_orZero x = x"

text \<open>\<^verbatim>\<open>parseInt\<close> returns the double nearest to the integer it reads.\<close>

definition parseInt64 :: "string \<Rightarrow> double" where
  "parseInt64 str = (case parseInt str of NaN \<Rightarrow> D_NaN | Num i \<Rightarrow> roundInt i)"

definition d_part :: "double list \<Rightarrow> nat \<Rightarrow> double" where
  "d_part parts i = (case nth_opt parts i of None \<Rightarrow> D_NaN | Some v \<Rightarrow> v)"

text \<open>\<^verbatim>\<open>secondsToHms\<close> and \<^verbatim>\<open>hmsToSeconds\<close> as given above, in doubles.\<close>

definition secondsToHms64 :: "double \<Rightarrow> string" where
  "secondsToHms64 sec =
     (let h = d_floor_div sec 3600;
          m = d_floor_div (d_rem sec 3600) 60;
          s = d_rem sec 60
      in padStart2 (toString64 h) @ '':'' @ padStart2 (toString64 m) @ '':'' @ padStart2 (toString64 s))"

definition hmsToSeconds64 :: "string \<Rightarrow> double" where
  "hmsToSeconds64 hms =
     (if hms = [] \<or> CHR '':'' \<notin> set hms then D_Int 0
      else let parts = map (\<lambda>p. d_orZero (parseInt64 p)) (js_split (CHR '':'') hms)
           in d_add (d_add (d_mul (d_part parts 0) 3600) (d_mul (d_part parts 1) 60))
                    (d_part parts 2))"

section \<open>Time-field editor\<close>

text \<open>
  \<^verbatim>\<open>
  function parseTimeString(value: string): [string, string, string] {
    const parts = value.split(":");
    return [
      (parts[0] || "00").padStart(2, "0"),
      (parts[1] || "00").padStart(2, "0"),
      (parts[2] || "00").padStart(2, "0"),
    ];
  }\<close>
\<close>

definition orDefault :: "string option \<Rightarrow> string \<Rightarrow> string" where
  "orDefault p d = (case p of None \<Rightarrow> d | Some s \<Rightarrow> (if s = [] then d else s))"

definition parseTimeString :: "string \<Rightarrow> string \<times> string \<times> string" where
  "parseTimeString v =
     (let parts = js_split (CHR '':'') v
      in (padStart2 (orDefault (nth_opt parts 0) ''00''),
          padStart2 (orDefault (nth_opt parts 1) ''00''),
          padStart2 (orDefault (nth_opt parts 2) ''00'')))"

text \<open>The regular expression \<^verbatim>\<open>/^\d$/\<close>: exactly one character, a decimal digit.\<close>

definition isDecimalDigit :: "char \<Rightarrow> bool" where
  "isDecimalDigit c = (48 \<le> (of_char c :: nat) \<and> (of_char c :: nat) \<le> 57)"

definition isDigitKey :: "string \<Rightarrow> bool" where
  "isDigitKey key = (case key of [c] \<Rightarrow> isDecimalDigit c | _ \<Rightarrow> False)"

datatype field = hours | minutes | seconds

text \<open>The sub-field chosen from the caret position, as in \<^verbatim>\<open>handleTimeInput\<close>:
  \<^verbatim>\<open>if (cursorPos <= 2) field = "hours"; else if (cursorPos <= 5) field = "minutes";
  else field = "seconds";\<close>\<close>

definition fieldAt :: "nat \<Rightarrow> field" where
  "fieldAt cursorPos =
     (if cursorPos \<le> 2 then hours else if cursorPos \<le> 5 then minutes else seconds)"

definition handleTimeInput :: "string \<Rightarrow> string \<Rightarrow> nat \<Rightarrow> string" where
  "handleTimeInput currentValue key cursorPos =
     (if \<not> isDigitKey key then currentValue
      else case parseTimeString currentValue of (hh, mm, ss) \<Rightarrow>
        (let fld = fieldAt cursorPos;
             newHH = (if fld = hours then padStart2 (charAt hh 1 @ key) else hh);
             newMM = (if fld = minutes then padStart2 (charAt mm 1 @ key) else mm);
             newSS = (if fld = seconds then padStart2 (charAt ss 1 @ key) else ss)
         in newHH @ '':'' @ newMM @ '':'' @ newSS))"

section \<open>Controller state\<close>

text \<open>
  The types of \<^verbatim>\<open>App.tsx\<close>. A duration is the count of seconds reported by the backend,
  a natural number; the optional \<^verbatim>\<open>duration\<close> of the preview is an option. The parsed
  reference is what \<^verbatim>\<open>parseInput(videoInput)\<close> yields at each render: the state keeps it in
  place of the raw text, which the controller uses nowhere else.
\<close>

datatype kind = video | clip

record reference =
  rtype :: kind
  rid :: string

record VideoQuality =
  qid :: string
  width :: int
  height :: int
  bandwidth :: int
  label :: string

record VodInfo =
  vod_title :: string
  vod_channel :: string
  vod_duration :: nat
  vod_thumbnail :: string
  vod_qualities :: "VideoQuality list"

record ClipInfoResp =
  clip_title :: string
  clip_channel :: string
  clip_thumbnail :: string

record PreviewInfo =
  title :: string
  channel :: string
  thumbnail :: string
  duration :: "nat option"

record DownloadProgress =
  stage :: string
  current :: nat
  total :: nat
  message :: string

text \<open>The fixed message texts of the toasts are named, not spelled out.\<close>

datatype toast_type = success | error

datatype toast_message =
  MissingInput | MissingOutputDir | DownloadDone | DownloadFailed | InstallFailed

record ToastData =
  toast_type :: toast_type
  toast_message :: toast_message
  detail :: "string option"

text \<open>The commands sent to the backend with \<^verbatim>\<open>invoke\<close>.\<close>

datatype command =
    fetch_video_info string
  | fetch_clip_info string
  | download_clip_cmd string string
  | download_vod string string string string "string option"
  | install_ffmpeg

text \<open>
  Besides the React state, the record holds what the runtime keeps for the component:
  the pending debounce timer (the reference captured by its closure and the milliseconds
  left), the metadata fetches started and not yet settled, and the log of commands sent
  to the backend, oldest first.
\<close>

record app =
  parsed :: "reference option"
  startTime :: string
  endTime :: string
  outputDir :: string
  isDownloading :: bool
  progress :: "DownloadProgress option"
  toast :: "ToastData option"
  preview :: "PreviewInfo option"
  fetchingInfo :: bool
  availableQualities :: "VideoQuality list"
  selectedQuality :: string
  ffmpegReady :: "bool option"
  installingFfmpeg :: bool
  timer :: "(reference \<times> nat) option"
  inflight :: "reference list"
  sent :: "command list"

definition init :: app where
  "init = \<lparr> parsed = None, startTime = ''00:00:00'', endTime = [], outputDir = [],
            isDownloading = False, progress = None, toast = None, preview = None,
            fetchingInfo = False, availableQualities = [], selectedQuality = ''auto'',
            ffmpegReady = None, installingFfmpeg = False,
            timer = None, inflight = [], sent = [] \<rparr>"

subsection \<open>Derived values\<close>

definition isClip :: "app \<Rightarrow> bool" where
  "isClip st = (case parsed st of None \<Rightarrow> False | Some r \<Rightarrow> rtype r = clip)"

definition isBusy :: "app \<Rightarrow> bool" where
  "isBusy st = (isDownloading st \<or> installingFfmpeg st)"

definition needsFfmpeg :: "app \<Rightarrow> bool" where
  "needsFfmpeg st = (\<not> isClip st \<and> ffmpegReady st = Some False)"

text \<open>\<^verbatim>\<open>preview?.duration\<close>; the code tests it for truthiness, so that \<open>0\<close> counts as absent.\<close>

definition previewDuration :: "app \<Rightarrow> nat option" where
  "previewDuration st = (case preview st of None \<Rightarrow> None | Some p \<Rightarrow> duration p)"

definition knownDuration :: "app \<Rightarrow> nat option" where
  "knownDuration st =
     (case previewDuration st of None \<Rightarrow> None | Some d \<Rightarrow> if d = 0 then None else Some d)"

section \<open>Range validator\<close>

text \<open>
  The two corrective effects. Both read the state of one render and write different
  fields, so the pair of a commit is their composition.
  \<^verbatim>\<open>
  if (!preview?.duration || !endTime || isClip) return;
  const endSec = hmsToSeconds(endTime);
  if (endSec > preview.duration) setEndTime(secondsToHms(preview.duration));\<close>
  \<^verbatim>\<open>
  if (!preview?.duration || !startTime || isClip) return;
  const startSec = hmsToSeconds(startTime);
  if (startSec >= preview.duration) {
    const maxStart = Math.max(0, preview.duration - 60);
    setStartTime(secondsToHms(maxStart)); }\<close>
\<close>

definition endEffect :: "app \<Rightarrow> app" where
  "endEffect st =
     (case knownDuration st of
        None \<Rightarrow> st
      | Some d \<Rightarrow>
          if endTime st = [] \<or> isClip st then st
          else if js_gt (hmsToSeconds (endTime st)) (Num (int d))
               then st\<lparr>endTime := secondsToHms (Num (int d))\<rparr>
               else st)"

definition startEffect :: "app \<Rightarrow> app" where
  "startEffect st =
     (case knownDuration st of
        None \<Rightarrow> st
      | Some d \<Rightarrow>
          if startTime st = [] \<or> isClip st then st
          else if js_ge (hmsToSeconds (startTime st)) (Num (int d))
               then st\<lparr>startTime := secondsToHms (Num (max 0 (int d - 60)))\<rparr>
               else st)"

definition rangeEffects :: "app \<Rightarrow> app" where
  "rangeEffects st = startEffect (endEffect st)"

text \<open>\<^verbatim>\<open>endSec\<close> of the validity check: the end time if set, else the duration.\<close>

definition effectiveEnd :: "app \<Rightarrow> nat \<Rightarrow> jsnum" where
  "effectiveEnd st d = (if endTime st \<noteq> [] then hmsToSeconds (endTime st) else Num (int d))"

text \<open>\<^verbatim>\<open>timeRangeError\<close> is a message or \<^verbatim>\<open>null\<close>; the model says whether it is set.\<close>

definition timeRangeError :: "app \<Rightarrow> bool" where
  "timeRangeError st =
     (if isClip st then False
      else case knownDuration st of
             None \<Rightarrow> False
           | Some d \<Rightarrow> js_ge (hmsToSeconds (startTime st)) (effectiveEnd st d))"

text \<open>The range property \<open>0 \<le> start < effectiveEnd \<le> duration\<close> of a state.\<close>

definition rangeHolds :: "app \<Rightarrow> bool" where
  "rangeHolds st =
     (case knownDuration st of
        None \<Rightarrow> False
      | Some d \<Rightarrow>
         (case (hmsToSeconds (startTime st), effectiveEnd st d) of
            (Num a, Num e) \<Rightarrow> 0 \<le> a \<and> a < e \<and> e \<le> int d
          | _ \<Rightarrow> False))"

section \<open>Metadata resolver\<close>

definition fetchCommand :: "reference \<Rightarrow> command" where
  "fetchCommand r =
     (if rtype r = video then fetch_video_info (rid r) else fetch_clip_info (rid r))"

text \<open>
  The effect with dependencies \<^verbatim>\<open>[parsed?.id, parsed?.type]\<close>. It runs again only when
  the reference differs in kind or id; its cleanup clears the timer of the previous run.
  \<^verbatim>\<open>
  if (!parsed) { setPreview(null); return; }
  const timer = setTimeout(() => { ... }, 500);
  return () => clearTimeout(timer);\<close>
\<close>

definition resolverEffect :: "reference option \<Rightarrow> app \<Rightarrow> app" where
  "resolverEffect p st =
     (if p = parsed st then st
      else case p of
             None \<Rightarrow> st\<lparr>parsed := None, timer := None, preview := None\<rparr>
           | Some r \<Rightarrow> st\<lparr>parsed := Some r, timer := Some (r, 500)\<rparr>)"

text \<open>The timer callback: \<^verbatim>\<open>setFetchingInfo(true)\<close> and the \<^verbatim>\<open>invoke\<close> for the captured
  reference.\<close>

definition timerFired :: "reference \<Rightarrow> app \<Rightarrow> app" where
  "timerFired r st =
     st\<lparr>timer := None, fetchingInfo := True,
        inflight := inflight st @ [r], sent := sent st @ [fetchCommand r]\<rparr>"

definition elapse :: "nat \<Rightarrow> app \<Rightarrow> app" where
  "elapse dt st =
     (case timer st of
        None \<Rightarrow> st
      | Some (r, remaining) \<Rightarrow>
          if dt < remaining then st\<lparr>timer := Some (r, remaining - dt)\<rparr>
          else timerFired r st)"

text \<open>\<^verbatim>\<open>[...info.qualities].sort((a, b) => b.bandwidth - a.bandwidth)\<close>: a stable sort,
  descending by bandwidth.\<close>

definition sortQualities :: "VideoQuality list \<Rightarrow> VideoQuality list" where
  "sortQualities qs = sort_key (\<lambda>q. - bandwidth q) qs"

text \<open>
  The handlers of the settled \<^verbatim>\<open>fetch_video_info\<close> promise.
  \<^verbatim>\<open>
  setPreview({ title: info.title, channel: info.channel, thumbnail: info.thumbnail,
               duration: info.duration });
  if (info.duration > 0) setEndTime(secondsToHms(info.duration));
  if (info.qualities && info.qualities.length > 0) {
    const sortedQualities = [...info.qualities].sort(...);
    setAvailableQualities(sortedQualities);
    setSelectedQuality("auto");
  } else { setAvailableQualities([]); }\<close>
\<close>

definition videoInfoLoaded :: "VodInfo \<Rightarrow> app \<Rightarrow> app" where
  "videoInfoLoaded info st =
     (let st1 = st\<lparr>preview := Some \<lparr> title = vod_title info, channel = vod_channel info,
                                      thumbnail = vod_thumbnail info,
                                      duration = Some (vod_duration info) \<rparr>\<rparr>;
          st2 = (if vod_duration info > 0
                 then st1\<lparr>endTime := secondsToHms (Num (int (vod_duration info)))\<rparr>
                 else st1)
      in if vod_qualities info \<noteq> []
         then st2\<lparr>availableQualities := sortQualities (vod_qualities info),
                  selectedQuality := ''auto''\<rparr>
         else st2\<lparr>availableQualities := []\<rparr>)"

definition videoInfoFailed :: "app \<Rightarrow> app" where
  "videoInfoFailed st = st\<lparr>preview := None, availableQualities := []\<rparr>"

definition clipInfoLoaded :: "ClipInfoResp \<Rightarrow> app \<Rightarrow> app" where
  "clipInfoLoaded info st =
     st\<lparr>preview := Some \<lparr> title = clip_title info, channel = clip_channel info,
                           thumbnail = clip_thumbnail info, duration = None \<rparr>\<rparr>"

definition clipInfoFailed :: "app \<Rightarrow> app" where
  "clipInfoFailed st = st\<lparr>preview := None\<rparr>"

text \<open>
  A fetch settles only if it was started and is still outstanding. Its handlers are the
  closures created when the timer fired: they use the captured reference only to choose
  the command, and never read the current one. \<^verbatim>\<open>finally\<close> clears the fetching flag.
\<close>

definition videoInfoResolved :: "reference \<Rightarrow> string + VodInfo \<Rightarrow> app \<Rightarrow> app" where
  "videoInfoResolved r res st =
     (if r \<notin> set (inflight st) \<or> rtype r \<noteq> video then st
      else let st1 = st\<lparr>inflight := remove1 r (inflight st)\<rparr>;
               st2 = (case res of Inr info \<Rightarrow> videoInfoLoaded info st1
                                | Inl err \<Rightarrow> videoInfoFailed st1)
           in st2\<lparr>fetchingInfo := False\<rparr>)"

definition clipInfoResolved :: "reference \<Rightarrow> string + ClipInfoResp \<Rightarrow> app \<Rightarrow> app" where
  "clipInfoResolved r res st =
     (if r \<notin> set (inflight st) \<or> rtype r \<noteq> clip then st
      else let st1 = st\<lparr>inflight := remove1 r (inflight st)\<rparr>;
               st2 = (case res of Inr info \<Rightarrow> clipInfoLoaded info st1
                                | Inl err \<Rightarrow> clipInfoFailed st1)
           in st2\<lparr>fetchingInfo := False\<rparr>)"

section \<open>Download session manager\<close>

text \<open>
  \<^verbatim>\<open>handleDownload\<close> up to its first \<^verbatim>\<open>await\<close>, and the continuation run when the
  command settles. The handler itself does not look at the busy flag; the button that
  calls it is disabled by
  \<^verbatim>\<open>disabled={isBusy || (needsFfmpeg && !isClip) || !!timeRangeError}\<close>.
\<close>

definition showToast :: "toast_type \<Rightarrow> toast_message \<Rightarrow> string option \<Rightarrow> app \<Rightarrow> app" where
  "showToast ty msg det st =
     st\<lparr>toast := Some \<lparr> toast_type = ty, toast_message = msg, detail = det \<rparr>\<rparr>"

definition downloadCommand :: "reference \<Rightarrow> app \<Rightarrow> command" where
  "downloadCommand r st =
     (if rtype r = clip then download_clip_cmd (rid r) (outputDir st)
      else download_vod (rid r)
             (if startTime st = [] then ''00:00:00'' else startTime st)
             (endTime st)
             (outputDir st)
             (if selectedQuality st = ''auto'' then None else Some (selectedQuality st)))"

definition handleDownload :: "app \<Rightarrow> app" where
  "handleDownload st =
     (case parsed st of
        None \<Rightarrow> showToast error MissingInput None st
      | Some r \<Rightarrow>
          if outputDir st = [] then showToast error MissingOutputDir None st
          else st\<lparr>isDownloading := True, toast := None, progress := None,
                  sent := sent st @ [downloadCommand r st]\<rparr>)"

definition downloadDisabled :: "app \<Rightarrow> bool" where
  "downloadDisabled st = (isBusy st \<or> (needsFfmpeg st \<and> \<not> isClip st) \<or> timeRangeError st)"

definition clickDownload :: "app \<Rightarrow> app" where
  "clickDownload st = (if downloadDisabled st then st else handleDownload st)"

definition downloadResolved :: "string + string \<Rightarrow> app \<Rightarrow> app" where
  "downloadResolved res st =
     (case res of
        Inr outputPath \<Rightarrow> (showToast success DownloadDone (Some outputPath) st)\<lparr>isDownloading := False\<rparr>
      | Inl e \<Rightarrow> (showToast error DownloadFailed (Some e) st)\<lparr>isDownloading := False\<rparr>)"

text \<open>\<^verbatim>\<open>handleInstallFfmpeg\<close>; its button is rendered when
  \<^verbatim>\<open>needsFfmpeg && !installingFfmpeg\<close>.\<close>

definition clickInstall :: "app \<Rightarrow> app" where
  "clickInstall st =
     (if needsFfmpeg st \<and> \<not> installingFfmpeg st
      then st\<lparr>installingFfmpeg := True, toast := None, progress := None,
              sent := sent st @ [install_ffmpeg]\<rparr>
      else st)"

definition installResolved :: "string + string \<Rightarrow> app \<Rightarrow> app" where
  "installResolved res st =
     (case res of
        Inr ok \<Rightarrow> st\<lparr>ffmpegReady := Some True, installingFfmpeg := False\<rparr>
      | Inl e \<Rightarrow> (showToast error InstallFailed (Some e) st)\<lparr>installingFfmpeg := False\<rparr>)"

section \<open>Events\<close>

text \<open>
  What can happen to the component. The text input and the two time fields are disabled
  while busy, and the time fields are rendered only when the input is not a clip, so
  their events change nothing then; a quality button exists only for \<^verbatim>\<open>"auto"\<close> and for
  the options of the stored quality set. \<open>SetStartTime s\<close> and \<open>SetEndTime s\<close> stand for a
  handler of the field calling the setter with \<open>s\<close>: \<^verbatim>\<open>onChange\<close> does so with any
  text of at most eight characters, the key, click and focus handlers with a text they
  build. After the handler of an event the component renders and its effects run.
\<close>

datatype event =
    ChangeInput "reference option"
  | Elapse nat
  | VideoInfoResolved reference "string + VodInfo"
  | ClipInfoResolved reference "string + ClipInfoResp"
  | SetStartTime string
  | SetEndTime string
  | SetOutputDir string
  | SelectQuality string
  | ClickDownload
  | DownloadResolved "string + string"
  | FfmpegChecked bool
  | ClickInstall
  | InstallResolved "string + string"
  | ProgressEvent DownloadProgress

fun handle :: "event \<Rightarrow> app \<Rightarrow> app" where
  "handle (ChangeInput p) st = (if isBusy st then st else resolverEffect p st)"
| "handle (Elapse dt) st = elapse dt st"
| "handle (VideoInfoResolved r res) st = videoInfoResolved r res st"
| "handle (ClipInfoResolved r res) st = clipInfoResolved r res st"
| "handle (SetStartTime s) st = (if isBusy st \<or> isClip st then st else st\<lparr>startTime := s\<rparr>)"
| "handle (SetEndTime s) st = (if isBusy st \<or> isClip st then st else st\<lparr>endTime := s\<rparr>)"
| "handle (SetOutputDir d) st = (if isBusy st \<or> d = [] then st else st\<lparr>outputDir := d\<rparr>)"
| "handle (SelectQuality q) st =
     (if isBusy st \<or> isClip st \<or> availableQualities st = []
         \<or> (q \<noteq> ''auto'' \<and> q \<notin> set (map qid (availableQualities st)))
      then st else st\<lparr>selectedQuality := q\<rparr>)"
| "handle ClickDownload st = clickDownload st"
| "handle (DownloadResolved res) st = downloadResolved res st"
| "handle (FfmpegChecked b) st = st\<lparr>ffmpegReady := Some b\<rparr>"
| "handle ClickInstall st = clickInstall st"
| "handle (InstallResolved res) st = installResolved res st"
| "handle (ProgressEvent p) st = st\<lparr>progress := Some p\<rparr>"

definition step :: "app \<Rightarrow> event \<Rightarrow> app" where
  "step st ev = rangeEffects (handle ev st)"

definition run :: "app \<Rightarrow> event list \<Rightarrow> app" where
  "run st evs = foldl step st evs"

section \<open>Quality selector\<close>

text \<open>
  \<^verbatim>\<open>
  const startSec = hmsToSeconds(startTime);
  const endSec = endTime ? hmsToSeconds(endTime) : preview?.duration || 0;
  const downloadDuration = Math.max(0, endSec - startSec);\<close>
\<close>

definition downloadDuration :: "app \<Rightarrow> jsnum" where
  "downloadDuration st =
     (let startSec = hmsToSeconds (startTime st);
          endSec = (if endTime st \<noteq> [] then hmsToSeconds (endTime st)
                    else Num (case previewDuration st of None \<Rightarrow> 0 | Some d \<Rightarrow> int d))
      in js_max0 (js_sub endSec startSec))"

text \<open>\<^verbatim>\<open>Math.round\<close>: the nearest integer, a half rounded up.\<close>

definition js_round :: "rat \<Rightarrow> int" where
  "js_round x = \<lfloor>x + 1 / 2\<rfloor>"

text \<open>
  \<^verbatim>\<open>
  const estimatedSizeMB = downloadDuration
    ? Math.round((quality.bandwidth * downloadDuration) / 8 / 1_000_000) : null;\<close>
\<close>

definition estimatedSizeMB :: "VideoQuality \<Rightarrow> jsnum \<Rightarrow> int option" where
  "estimatedSizeMB quality dd =
     (case dd of
        NaN \<Rightarrow> None
      | Num d \<Rightarrow> if d = 0 then None
                 else Some (js_round (of_int (bandwidth quality * d) / 8 / 1000000)))"

text \<open>
  The caption of a quality button. \<^verbatim>\<open>toFixed(1)\<close> prints its argument with one decimal;
  the caption keeps the argument and leaves the printing to \<^verbatim>\<open>toFixed\<close>.
  \<^verbatim>\<open>
  if (mb === null) return null;
  if (mb >= 1000) return `~${(mb / 1000).toFixed(1)}GB`;
  return `~${mb}MB`;\<close>
  and \<^verbatim>\<open>formatSize(estimatedSizeMB) || `${(quality.bandwidth / 1_000_000).toFixed(1)}Mbps`\<close>.
\<close>

datatype caption = SizeMB int | SizeGB rat | BitrateMbps rat

definition formatSize :: "int option \<Rightarrow> caption option" where
  "formatSize mb =
     (case mb of
        None \<Rightarrow> None
      | Some m \<Rightarrow> if m \<ge> 1000 then Some (SizeGB (of_int m / 1000)) else Some (SizeMB m))"

definition qualityCaption :: "VideoQuality \<Rightarrow> jsnum \<Rightarrow> caption" where
  "qualityCaption quality dd =
     (case formatSize (estimatedSizeMB quality dd) of
        Some c \<Rightarrow> c
      | None \<Rightarrow> BitrateMbps (of_int (bandwidth quality) / 1000000))"

definition qualityCaptions :: "app \<Rightarrow> caption list" where
  "qualityCaptions st =
     (if isClip st then []
      else map (\<lambda>q. qualityCaption q (downloadDuration st)) (availableQualities st))"

section \<open>Statements of the specification\<close>

text \<open>
  The definitions of this section follow the words of the specification rather than
  the code; the properties below compare them with the definitions taken from the code.
\<close>

text \<open>A buffer of the form \<^verbatim>\<open>HH:MM:SS\<close>: eight characters, digits around two colons.\<close>

definition isHmsBuffer :: "string \<Rightarrow> bool" where
  "isHmsBuffer buf =
     (case buf of
        [h1, h2, c1, m1, m2, c2, s1, s2] \<Rightarrow>
          c1 = CHR '':'' \<and> c2 = CHR '':'' \<and> (\<forall>c \<in> set [h1, h2, m1, m2, s1, s2]. isDecimalDigit c)
      | _ \<Rightarrow> False)"

text \<open>Replacing a sub-field by its former low digit followed by the new digit, the other
  two sub-fields unchanged.\<close>

definition shiftDigit :: "field \<Rightarrow> string \<Rightarrow> char \<Rightarrow> string" where
  "shiftDigit fld buf d =
     (case buf of
        [h1, h2, c1, m1, m2, c2, s1, s2] \<Rightarrow>
          (case fld of
             hours \<Rightarrow> [h2, d, c1, m1, m2, c2, s1, s2]
           | minutes \<Rightarrow> [h1, h2, c1, m2, d, c2, s1, s2]
           | seconds \<Rightarrow> [h1, h2, c1, m1, m2, c2, s2, d])
      | _ \<Rightarrow> buf)"

text \<open>The sub-field of a caret position as the specification words it: hours for
  \<open>p \<in> [0,2)\<close>, minutes for \<open>p \<in> [2,5)\<close>, seconds otherwise.\<close>

definition claimedField :: "nat \<Rightarrow> field" where
  "claimedField p = (if p < 2 then hours else if p < 5 then minutes else seconds)"

section \<open>Example data\<close>

text \<open>Two video references and two answers of the backend, used to run the controller on
  concrete inputs.\<close>

definition ref1 :: reference where
  "ref1 = \<lparr> rtype = video, rid = ''123456'' \<rparr>"

definition ref2 :: reference where
  "ref2 = \<lparr> rtype = video, rid = ''777'' \<rparr>"

definition q480 :: VideoQuality where
  "q480 = \<lparr> qid = ''480p'', width = 854, height = 480, bandwidth = 3000000, label = ''480p'' \<rparr>"

definition q1080 :: VideoQuality where
  "q1080 = \<lparr> qid = ''1080p'', width = 1920, height = 1080, bandwidth = 8000000, label = ''1080p'' \<rparr>"

definition info1 :: VodInfo where
  "info1 = \<lparr> vod_title = ''first'', vod_channel = ''ch'', vod_duration = 3661,
             vod_thumbnail = ''t1'', vod_qualities = [q480, q1080] \<rparr>"

definition info2 :: VodInfo where
  "info2 = \<lparr> vod_title = ''second'', vod_channel = ''ch'', vod_duration = 120,
             vod_thumbnail = ''t2'', vod_qualities = [] \<rparr>"

text \<open>The first video has been resolved and its best quality chosen; then the input is
  changed to the second video and the fetch for it is started.\<close>

definition chosen1080 :: app where
  "chosen1080 = run init [ChangeInput (Some ref1), Elapse 500,
                          VideoInfoResolved ref1 (Inr info1), SelectQuality ''1080p'',
                          ChangeInput (Some ref2), Elapse 500]"

text \<open>The fetch for the first video is in flight when the input changes to the second.\<close>

definition superseded :: app where
  "superseded = run init [ChangeInput (Some ref1), Elapse 500, ChangeInput (Some ref2)]"

text \<open>A download of the first video is running.\<close>

definition downloading :: app where
  "downloading = run init [ChangeInput (Some ref1), SetOutputDir ''out'', ClickDownload]"

section \<open>Bursts of reference changes\<close>



section \<open>Time texts that decode to a time\<close>

text \<open>
  A start text is in order when it decodes to a non-negative number of seconds, an end
  text when it decodes to a number at all (the empty text does: it stands for the end of
  the media). Every \<^verbatim>\<open>HH:MM:SS\<close> text of digits is in order. An event is in order when
  the text it sets is.
\<close>

definition startOk :: "string \<Rightarrow> bool" where
  "startOk s = (case hmsToSeconds s of NaN \<Rightarrow> False | Num a \<Rightarrow> 0 \<le> a)"

definition endOk :: "string \<Rightarrow> bool" where
  "endOk s = (case hmsToSeconds s of NaN \<Rightarrow> False | Num e \<Rightarrow> True)"

definition okTimes :: "app \<Rightarrow> bool" where
  "okTimes st = (startOk (startTime st) \<and> endOk (endTime st))"

fun okEvent :: "event \<Rightarrow> bool" where
  "okEvent (SetStartTime s) = startOk s"
| "okEvent (SetEndTime s) = endOk s"
| "okEvent _ = True"

text \<open>The first video is resolved, then the start field receives the text
  \<^verbatim>\<open>-1:00:00\<close>, eight characters that \<^verbatim>\<open>onChange\<close> accepts.\<close>

definition negativeStart :: app where
  "negativeStart = run init [ChangeInput (Some ref1), Elapse 500,
                             VideoInfoResolved ref1 (Inr info1), SetStartTime ''-1:00:00'']"

section \<open>Properties of the time codec\<close>

subsection \<open>Decimal numerals are read back by \<^verbatim>\<open>parseInt\<close>\<close>

lemma isDecimalDigit_code: "isDecimalDigit c \<Longrightarrow> 48 \<le> (of_char c :: nat) \<and> (of_char c :: nat) \<le> 57"
  by (auto simp: isDecimalDigit_def)

lemma isDecimalDigit_digit: "(d::nat) < 10 \<Longrightarrow> isDecimalDigit (char_of (48 + d))"
  by (simp add: isDecimalDigit_def)

lemma digitValue_digit: "d < 10 \<Longrightarrow> digitValue (char_of (48 + d)) = Some d"
  by (simp add: digitValue_def Let_def)

lemma isDecimalDigit_radix: "isDecimalDigit c \<Longrightarrow> isRadixDigit 10 c"
  by (auto simp: isDecimalDigit_def isRadixDigit_def digitValue_def)

lemma isDecimalDigit_plain:
  assumes "isDecimalDigit c"
  shows "c \<noteq> CHR '':''" and "c \<noteq> CHR ''-''" and "c \<noteq> CHR ''+''"
    and "c \<noteq> CHR ''x''" and "c \<noteq> CHR ''X''" and "\<not> isWhiteSpace c"
  using isDecimalDigit_code [OF assms] by (auto simp: isWhiteSpace_def)

lemma isDecimalDigit_zero: "isDecimalDigit (CHR ''0'')"
  by (simp add: isDecimalDigit_def)

lemma showNat_dec: "c \<in> set (showNat n) \<Longrightarrow> isDecimalDigit c"
proof (induction n rule: showNat.induct)
  case (1 n)
  show ?case
  proof (cases "n < 10")
    case True
    with 1(2) show ?thesis by (subst (asm) showNat.simps) (auto simp: isDecimalDigit_digit)
  next
    case False
    have "n mod 10 < 10" by simp
    then have "isDecimalDigit (char_of (48 + n mod 10))" by (rule isDecimalDigit_digit)
    with False 1 show ?thesis by (subst (asm) (2) showNat.simps) auto
  qed
qed

lemma showNat_nonempty: "showNat n \<noteq> []"
  by (subst showNat.simps) simp

lemma digitsToNat_snoc:
  "digitsToNat R (Z @ [c]) = digitsToNat R Z * R + (case digitValue c of None \<Rightarrow> 0 | Some v \<Rightarrow> v)"
  by (simp add: digitsToNat_def)

lemma digitsToNat_showNat: "digitsToNat 10 (showNat n) = n"
proof (induction n rule: showNat.induct)
  case (1 n)
  show ?case
  proof (cases "n < 10")
    case True
    then show ?thesis by (subst showNat.simps) (simp add: digitsToNat_def digitValue_digit)
  next
    case False
    have "n mod 10 < 10" by simp
    then have "digitValue (char_of (48 + n mod 10)) = Some (n mod 10)" by (rule digitValue_digit)
    with False 1 show ?thesis by (subst showNat.simps) (simp add: digitsToNat_snoc)
  qed
qed

lemma digitsToNat_zeros: "digitsToNat 10 (replicate k (CHR ''0'') @ Z) = digitsToNat 10 Z"
proof -
  have "foldl (\<lambda>acc c. acc * 10 + (case digitValue c of None \<Rightarrow> 0 | Some v \<Rightarrow> v)) 0 (replicate k (CHR ''0'')) = 0"
    by (induction k) (simp_all add: digitValue_def)
  then show ?thesis by (simp add: digitsToNat_def)
qed

lemma parseInt_decimal:
  assumes ne: "Z \<noteq> []" and dec: "\<forall>c \<in> set Z. isDecimalDigit c"
  shows "parseInt Z = Num (int (digitsToNat 10 Z))"
proof -
  obtain c cs where Z: "Z = c # cs" using ne by (cases Z) auto
  have c: "isDecimalDigit c" using dec Z by simp
  have tw: "isRadixDigit 10 c" "takeWhile (isRadixDigit 10) cs = cs"
    using dec Z isDecimalDigit_radix by (simp_all add: takeWhile_eq_all_conv)
  have nohex: "take 1 cs \<noteq> ''x''" "take 1 cs \<noteq> ''X''"
  proof -
    show "take 1 cs \<noteq> ''x''"
    proof (cases cs)
      case Nil then show ?thesis by simp
    next
      case (Cons e es)
      then have "isDecimalDigit e" using dec Z by simp
      then show ?thesis using Cons isDecimalDigit_plain(4) by auto
    qed
    show "take 1 cs \<noteq> ''X''"
    proof (cases cs)
      case Nil then show ?thesis by simp
    next
      case (Cons e es)
      then have "isDecimalDigit e" using dec Z by simp
      then show ?thesis using Cons isDecimalDigit_plain(5) by auto
    qed
  qed
  have ws: "dropWhile isWhiteSpace (c # cs) = c # cs"
    using isDecimalDigit_plain(6) [OF c] by simp
  have hd: "take 1 (c # cs) = [c]" "take 2 (c # cs) = c # take 1 cs"
    by simp_all
  show ?thesis
    unfolding Z parseInt_def Let_def ws hd
    using isDecimalDigit_plain(2,3) [OF c] nohex by (simp add: tw)
qed

lemma padded_dec: "c \<in> set (padStart2 (showNat n)) \<Longrightarrow> isDecimalDigit c"
  by (auto simp: padStart2_def isDecimalDigit_zero dest: showNat_dec)

lemma parseInt_padded: "parseInt (padStart2 (showNat n)) = Num (int n)"
proof -
  have "padStart2 (showNat n) \<noteq> []"
    by (simp add: padStart2_def showNat_nonempty)
  moreover have "\<forall>c \<in> set (padStart2 (showNat n)). isDecimalDigit c"
    using padded_dec by blast
  ultimately have "parseInt (padStart2 (showNat n)) = Num (int (digitsToNat 10 (padStart2 (showNat n))))"
    by (rule parseInt_decimal)
  then show ?thesis
    by (simp add: padStart2_def digitsToNat_zeros digitsToNat_showNat)
qed

lemma js_split_plain: "sep \<notin> set a \<Longrightarrow> js_split sep a = [a]"
  by (induction a) auto

lemma js_split_append:
  "sep \<notin> set a \<Longrightarrow> js_split sep (a @ sep # rest) = a # js_split sep rest"
  by (induction a) auto

lemma padded_no_colon: "CHR '':'' \<notin> set (padStart2 (showNat n))"
  using padded_dec isDecimalDigit_plain(1) by blast

lemma js_split_hms:
  "js_split (CHR '':'') (padStart2 (showNat a) @ '':'' @ padStart2 (showNat b) @ '':'' @ padStart2 (showNat c))
     = [padStart2 (showNat a), padStart2 (showNat b), padStart2 (showNat c)]"
  using padded_no_colon by (simp add: js_split_append js_split_plain)

lemma secondsToHms_nat:
  "secondsToHms (Num (int n)) =
     padStart2 (showNat (n div 3600)) @ '':'' @ padStart2 (showNat (n mod 3600 div 60)) @ '':'' @
     padStart2 (showNat (n mod 60))"
proof -
  have "nat (int n div 3600) = n div 3600" "nat (int n mod 3600 div 60) = n mod 3600 div 60"
       "nat (int n mod 60) = n mod 60"
    by (simp_all add: nat_div_distrib nat_mod_distrib)
  moreover have "\<not> int n div 3600 < 0" "\<not> int n mod 3600 div 60 < 0" "\<not> int n mod 60 < 0"
    by (simp_all add: pos_imp_zdiv_neg_iff)
  ultimately show ?thesis
    by (simp add: secondsToHms_def Let_def)
qed

lemma hms_arith: "int (n div 3600) * 3600 + int (n mod 3600 div 60) * 60 + int (n mod 60) = int n"
proof -
  have a: "n mod 3600 mod 60 = n mod 60"
    by (rule mod_mod_cancel) simp
  have "n = n div 3600 * 3600 + n mod 3600"
    by (rule div_mult_mod_eq [symmetric])
  also have "n mod 3600 = n mod 3600 div 60 * 60 + n mod 3600 mod 60"
    by (rule div_mult_mod_eq [symmetric])
  finally have "n = n div 3600 * 3600 + (n mod 3600 div 60 * 60 + n mod 60)"
    unfolding a .
  then have "int n = int (n div 3600 * 3600 + (n mod 3600 div 60 * 60 + n mod 60))"
    by (rule arg_cong)
  then show ?thesis
    by (simp only: of_nat_add of_nat_mult of_nat_numeral add.assoc)
qed

lemma hmsToSeconds_secondsToHms: "hmsToSeconds (secondsToHms (Num (int n))) = Num (int n)"
proof -
  let ?h = "padStart2 (showNat (n div 3600))"
  let ?m = "padStart2 (showNat (n mod 3600 div 60))"
  let ?s = "padStart2 (showNat (n mod 60))"
  have colon: "CHR '':'' \<in> set (?h @ '':'' @ ?m @ '':'' @ ?s)" by simp
  have ne: "?h @ '':'' @ ?m @ '':'' @ ?s \<noteq> []" by simp
  have parts: "map (\<lambda>p. orZero (parseInt p)) (js_split (CHR '':'') (?h @ '':'' @ ?m @ '':'' @ ?s))
     = [int (n div 3600), int (n mod 3600 div 60), int (n mod 60)]"
    unfolding js_split_hms by (simp add: parseInt_padded)
  show ?thesis
    unfolding secondsToHms_nat hmsToSeconds_def Let_def parts
    using colon ne hms_arith [of n] by (simp add: part_num_def nth_opt_def)
qed

section \<open>Properties of the time codec in double precision\<close>

subsection \<open>Rounding\<close>

lemma pow2_power_int: "pow2 e = power_int 2 e"
  by (simp add: pow2_def power_int_def inverse_eq_divide power_one_over [symmetric] del: power_one_over)

lemma pow2_pos [simp]: "0 < pow2 e"
  by (simp add: pow2_power_int)

lemma pow2_Suc: "pow2 (e + 1) = 2 * pow2 e"
  by (simp add: pow2_power_int power_int_add)

lemma pow2_pred: "pow2 (e - 1) = pow2 e / 2"
  using pow2_Suc [of "e - 1"] by simp

lemma pow2_nat: "pow2 (int n) = 2 ^ n"
  by (simp add: pow2_power_int)

lemma pow2_add: "pow2 (a + b) = pow2 a * pow2 b"
  by (simp add: pow2_power_int power_int_add)

lemma pow2_mono: "a \<le> b \<Longrightarrow> pow2 a \<le> pow2 b"
  by (simp add: pow2_power_int power_int_increasing)

lemma pow2_less_imp: "pow2 a < pow2 b \<Longrightarrow> a < b"
  using pow2_mono [of b a] by (cases "a < b") auto

lemma log2_up_spec:
  "1 \<le> x \<Longrightarrow> 0 \<le> log2_up x \<and> pow2 (log2_up x) \<le> x \<and> x < pow2 (log2_up x + 1)"
proof (induction x rule: log2_up.induct)
  case (1 x)
  show ?case
  proof (cases "x < 2")
    case True
    with 1(2) show ?thesis
      by (subst (1 2 3) log2_up.simps) (simp add: pow2_def)
  next
    case False
    then have "1 \<le> x / 2" by simp
    with 1(1) False
    have ih: "0 \<le> log2_up (x / 2)" "pow2 (log2_up (x / 2)) \<le> x / 2"
      "x / 2 < pow2 (log2_up (x / 2) + 1)"
      by simp_all
    have e: "log2_up x = log2_up (x / 2) + 1"
      using False by (subst log2_up.simps) simp
    show ?thesis
      using ih unfolding e pow2_Suc by simp
  qed
qed

lemma log2_down_spec:
  "0 < x \<Longrightarrow> x < 1 \<Longrightarrow> pow2 (log2_down x) \<le> x \<and> x < pow2 (log2_down x + 1)"
proof (induction x rule: log2_down.induct)
  case (1 x)
  have e: "log2_down x = log2_down (2 * x) - 1"
    using 1(2,3) by (subst log2_down.simps) simp
  show ?case
  proof (cases "2 * x < 1")
    case True
    with 1 have "pow2 (log2_down (2 * x)) \<le> 2 * x \<and> 2 * x < pow2 (log2_down (2 * x) + 1)"
      by simp
    then show ?thesis
      unfolding e by (simp add: pow2_pred pow2_Suc)
  next
    case False
    then have "log2_down (2 * x) = 0"
      by (subst log2_down.simps) simp
    then show ?thesis
      unfolding e using False 1(3) by (simp add: pow2_def)
  qed
qed

lemma ilog2_spec:
  assumes "0 < x"
  shows "pow2 (ilog2 x) \<le> x" and "x < pow2 (ilog2 x + 1)"
  using assms log2_up_spec [of x] log2_down_spec [of x]
  by (auto simp: ilog2_def)

lemma ilog2_less: "0 < x \<Longrightarrow> x < pow2 j \<Longrightarrow> ilog2 x < j"
  using ilog2_spec(1) [of x] pow2_less_imp [of "ilog2 x" j] by simp

lemma ilog2_ge: "0 < x \<Longrightarrow> pow2 j \<le> x \<Longrightarrow> j \<le> ilog2 x"
  using ilog2_spec(2) [of x] pow2_less_imp [of j "ilog2 x + 1"] by simp

lemma rne_error: "\<bar>of_int (rne y) - y\<bar> \<le> 1 / 2"
proof -
  have "of_int \<lfloor>y\<rfloor> \<le> y" "y < of_int \<lfloor>y\<rfloor> + 1" by linarith+
  then show ?thesis
    by (auto simp: rne_def Let_def)
qed

lemma rne_of_int [simp]: "rne (of_int k) = k"
  by (simp add: rne_def)

lemma fl_error:
  assumes "x \<noteq> 0" and "- 1022 \<le> ilog2 \<bar>x\<bar>"
  shows "\<bar>fl x - x\<bar> \<le> pow2 (ilog2 \<bar>x\<bar> - 53)"
proof -
  define u where "u = pow2 (ilog2 \<bar>x\<bar> - 52)"
  have u: "0 < u" by (simp add: u_def)
  have f: "fl x = u * of_int (rne (x / u))"
    using assms by (simp add: fl_def u_def max_def Let_def)
  have "fl x - x = u * (of_int (rne (x / u)) - x / u)"
    using u by (simp add: f algebra_simps)
  then have "\<bar>fl x - x\<bar> = u * \<bar>of_int (rne (x / u)) - x / u\<bar>"
    using u by (simp add: abs_mult)
  also have "\<dots> \<le> u * (1 / 2)"
    using u rne_error [of "x / u"] by (intro mult_left_mono) simp_all
  also have "\<dots> = pow2 (ilog2 \<bar>x\<bar> - 53)"
    using pow2_pred [of "ilog2 \<bar>x\<bar> - 52"] by (simp add: u_def)
  finally show ?thesis .
qed

lemma fl_of_int:
  assumes "\<bar>n\<bar> < 2 ^ 53"
  shows "fl (of_int n) = of_int n"
proof (cases "n = 0")
  case True
  then show ?thesis by (simp add: fl_def)
next
  case False
  define x :: rat where "x = of_int n"
  define e where "e = ilog2 \<bar>x\<bar>"
  have x0: "0 < \<bar>x\<bar>" using False by (simp add: x_def)
  have "pow2 0 \<le> \<bar>x\<bar>"
  proof -
    have "1 \<le> \<bar>n\<bar>" using False by simp
    then have "(1 :: rat) \<le> of_int \<bar>n\<bar>" using of_int_1_le_iff by blast
    then show ?thesis by (simp add: pow2_def x_def)
  qed
  then have e0: "0 \<le> e" unfolding e_def using x0 by (rule ilog2_ge [rotated])
  have "\<bar>x\<bar> < pow2 53"
  proof -
    have "(of_int \<bar>n\<bar> :: rat) < of_int (2 ^ 53)" using assms by (simp only: of_int_less_iff)
    then show ?thesis by (simp add: pow2_def x_def)
  qed
  then have e1: "e < 53" unfolding e_def using x0 by (rule ilog2_less [rotated])
  define j where "j = nat (52 - e)"
  have u: "pow2 (e - 52) = 1 / 2 ^ j"
    using e1 by (simp add: pow2_def j_def)
  have q: "x / pow2 (e - 52) = of_int (n * 2 ^ j)"
    by (simp add: u x_def)
  have "fl x = pow2 (e - 52) * of_int (rne (x / pow2 (e - 52)))"
    using False e0 by (simp add: fl_def x_def e_def max_def Let_def)
  then have "fl x = pow2 (e - 52) * of_int (n * 2 ^ j)"
    unfolding q rne_of_int .
  then show ?thesis
    by (simp add: u x_def)
qed

lemma roundInt_exact: "\<bar>n\<bar> < 2 ^ 53 \<Longrightarrow> roundInt n = D_Int n"
proof -
  assume a: "\<bar>n\<bar> < 2 ^ 53"
  have "\<bar>n\<bar> < 2 ^ 1024"
    using a by (rule less_trans) simp
  then have "(of_int \<bar>n\<bar> :: rat) < of_int (2 ^ 1024)"
    by (simp only: of_int_less_iff)
  then have "\<not> (2 :: rat) ^ 1024 \<le> \<bar>of_int n\<bar>" by simp
  then show ?thesis
    by (simp add: roundInt_def fl_of_int [OF a])
qed

text \<open>Below \<open>2^53\<close> the rounded quotient has the floor of the exact one.\<close>

lemma floor_fl_div:
  assumes a: "0 \<le> a" "a < 2 ^ 53" and k: "0 < k" "k \<le> 3600"
  shows "\<lfloor>fl (of_int a / of_int k)\<rfloor> = a div k"
proof (cases "a mod k = 0")
  case True
  then have "a = (a div k) * k" by (simp add: mod_eq_0_iff_dvd)
  then have "(of_int a :: rat) = of_int (a div k) * of_int k"
    by (metis of_int_mult)
  then have q: "(of_int a :: rat) / of_int k = of_int (a div k)"
    using k by simp
  have "a div k \<le> a div 1" using a k by (intro zdiv_mono2) simp_all
  then have "a div k \<le> a" by simp
  moreover have "0 \<le> a div k" using a k by (simp add: pos_imp_zdiv_nonneg_iff)
  ultimately have "\<bar>a div k\<bar> < 2 ^ 53" using a by simp
  then show ?thesis
    unfolding q by (simp add: fl_of_int)
next
  case False
  define n where "n = a div k"
  define r where "r = a mod k"
  define q :: rat where "q = of_int a / of_int k"
  have kr: "(0 :: rat) < of_int k" using k by simp
  have "0 \<le> a mod k" "a mod k < k"
    using k by simp_all
  then have r: "1 \<le> r" "r \<le> k - 1"
    using False unfolding r_def by linarith+
  have "a = n * k + r" by (simp add: n_def r_def)
  then have "(of_int a :: rat) = of_int n * of_int k + of_int r"
    by (metis of_int_add of_int_mult)
  then have qn: "q = of_int n + of_int r / of_int k"
    using kr by (simp add: q_def field_simps)
  have lo: "of_int n + 1 / of_int k \<le> q"
    unfolding qn using r(1) kr by (simp add: divide_right_mono)
  have hi: "q \<le> of_int n + 1 - 1 / of_int k"
  proof -
    have "(of_int r :: rat) \<le> of_int k - 1" using r(2) by linarith
    then have "(of_int r :: rat) / of_int k \<le> (of_int k - 1) / of_int k"
      using kr by (simp add: divide_right_mono)
    also have "\<dots> = 1 - 1 / of_int k" using kr by (simp add: field_simps)
    finally show ?thesis unfolding qn by simp
  qed
  have apos: "0 < a" using False a by (cases "a = 0") auto
  have qpos: "0 < q" using apos kr by (simp add: q_def)
  have "pow2 (- 12) \<le> 1 / of_int k"
  proof -
    have "(of_int k :: rat) \<le> of_int 3600" using k by (simp only: of_int_le_iff)
    then have "(of_int k :: rat) \<le> 4096" by simp
    then have "1 / (4096 :: rat) \<le> 1 / of_int k"
      using kr by (simp add: frac_le)
    then show ?thesis by (simp add: pow2_def)
  qed
  also have "1 / of_int k \<le> q"
  proof -
    have "(1 :: rat) \<le> of_int a" using apos by simp
    then show ?thesis using kr by (simp add: q_def divide_right_mono)
  qed
  finally have "- 12 \<le> ilog2 q" using qpos by (intro ilog2_ge)
  then have sub: "- 1022 \<le> ilog2 \<bar>q\<bar>" using qpos by simp
  have "\<bar>fl q - q\<bar> \<le> pow2 (ilog2 \<bar>q\<bar> - 53)"
    using qpos sub by (intro fl_error) simp_all
  also have "pow2 (ilog2 \<bar>q\<bar> - 53) = pow2 (ilog2 q) / 2 ^ 53"
    using qpos pow2_add [of "ilog2 q" "- 53"] by (simp add: pow2_def)
  also have "\<dots> \<le> q / 2 ^ 53"
    using ilog2_spec(1) [OF qpos] by (simp add: divide_right_mono)
  also have "\<dots> < 1 / of_int k"
  proof -
    have "(of_int a :: rat) < of_int (2 ^ 53)" using a by (simp only: of_int_less_iff)
    then have "(of_int a :: rat) / 2 ^ 53 < 1" by simp
    then have "(of_int a :: rat) / 2 ^ 53 / of_int k < 1 / of_int k"
      using kr by (rule divide_strict_right_mono)
    then show ?thesis by (simp add: q_def)
  qed
  finally have err: "\<bar>fl q - q\<bar> < 1 / of_int k" .
  have "of_int n < fl q" "fl q < of_int n + 1"
    using err lo hi by linarith+
  then have "\<lfloor>fl q\<rfloor> = n"
    by (simp add: floor_eq_iff)
  then show ?thesis by (simp add: q_def n_def)
qed

subsection \<open>Below \<open>2^53\<close> the codec computes exactly\<close>

lemma nat_below: "n < 2 ^ 53 \<Longrightarrow> \<bar>int n\<bar> < 2 ^ 53"
proof -
  assume "n < 2 ^ 53"
  then have "int n < int (2 ^ 53)" by (simp only: of_nat_less_iff)
  then show ?thesis by simp
qed

lemma showDouble_small: "n < 2 ^ 53 \<Longrightarrow> showDouble n = showNat n"
  by (simp add: showDouble_def)

lemma secondsToHms64_exact:
  assumes "s < 2 ^ 53"
  shows "secondsToHms64 (D_Int (int s)) = secondsToHms (Num (int s))"
proof -
  have b: "int s < 2 ^ 53" using nat_below [OF assms] by simp
  have h: "\<lfloor>fl (of_int (int s) / of_int 3600)\<rfloor> = int s div 3600"
    using b by (intro floor_fl_div) simp_all
  have "int s mod 3600 < 3600" by simp
  then have "int s mod 3600 < 2 ^ 53" by (rule less_trans) simp
  then have m: "\<lfloor>fl (of_int (int s mod 3600) / of_int 60)\<rfloor> = int s mod 3600 div 60"
    by (intro floor_fl_div) simp_all
  have i: "int s div 3600 = int (s div 3600)" "int s mod 3600 div 60 = int (s mod 3600 div 60)"
    "int s mod 60 = int (s mod 60)"
    by (simp_all add: zdiv_int zmod_int)
  have l: "s div 3600 < 2 ^ 53" "s mod 3600 div 60 < 2 ^ 53" "s mod 60 < 2 ^ 53"
  proof -
    show "s div 3600 < 2 ^ 53" using assms by (rule le_less_trans [rotated]) simp
    have "s mod 3600 div 60 \<le> s mod 3600" by simp
    also have "\<dots> < 3600" by simp
    also have "\<dots> < 2 ^ 53" by simp
    finally show "s mod 3600 div 60 < 2 ^ 53" .
    have "s mod 60 < 60" by simp
    also have "\<dots> < 2 ^ 53" by simp
    finally show "s mod 60 < 2 ^ 53" .
  qed
  have "secondsToHms64 (D_Int (int s)) =
          padStart2 (showNat (s div 3600)) @ '':'' @ padStart2 (showNat (s mod 3600 div 60)) @ '':'' @
          padStart2 (showNat (s mod 60))"
    unfolding secondsToHms64_def Let_def d_floor_div.simps d_rem.simps
    using h m by (simp add: i showDouble_small [OF l(1)] showDouble_small [OF l(2)]
        showDouble_small [OF l(3)])
  then show ?thesis by (simp add: secondsToHms_nat)
qed

lemma parseInt64_padded: "n < 2 ^ 53 \<Longrightarrow> parseInt64 (padStart2 (showNat n)) = D_Int (int n)"
  by (simp add: parseInt64_def parseInt_padded roundInt_exact nat_below)

lemma hmsToSeconds64_exact:
  assumes "s < 2 ^ 53"
  shows "hmsToSeconds64 (secondsToHms (Num (int s))) = D_Int (int s)"
proof -
  let ?h = "s div 3600" and ?m = "s mod 3600 div 60" and ?s = "s mod 60"
  let ?t = "padStart2 (showNat ?h) @ '':'' @ padStart2 (showNat ?m) @ '':'' @ padStart2 (showNat ?s)"
  have le: "?h * 3600 \<le> s" "?h * 3600 + ?m * 60 \<le> s" "?h * 3600 + ?m * 60 + ?s = s"
  proof -
    have a: "s mod 3600 mod 60 = s mod 60" by (rule mod_mod_cancel) simp
    have b: "?m * 60 + s mod 3600 mod 60 = s mod 3600" by (rule div_mult_mod_eq)
    have c: "?h * 3600 + s mod 3600 = s" by (rule div_mult_mod_eq)
    show "?h * 3600 \<le> s" using c by linarith
    show "?h * 3600 + ?m * 60 \<le> s" using b c by linarith
    show "?h * 3600 + ?m * 60 + ?s = s" using a b c by linarith
  qed
  have l: "?h < 2 ^ 53" "?m < 2 ^ 53" "?s < 2 ^ 53"
    using le assms by linarith+
  have p: "map (\<lambda>p. d_orZero (parseInt64 p)) (js_split (CHR '':'') ?t)
             = [D_Int (int ?h), D_Int (int ?m), D_Int (int ?s)]"
    unfolding js_split_hms
    by (simp add: parseInt64_padded [OF l(1)] parseInt64_padded [OF l(2)] parseInt64_padded [OF l(3)])
  have b: "int s < 2 ^ 53" using nat_below [OF assms] by simp
  have i1: "int ?h * 3600 = int (?h * 3600)" "int ?m * 60 = int (?m * 60)"
    by simp_all
  have r1: "roundInt (int ?h * 3600) = D_Int (int ?h * 3600)"
    using le(1) b unfolding i1 by (intro roundInt_exact) simp
  have r2: "roundInt (int ?m * 60) = D_Int (int ?m * 60)"
    using le(2) b unfolding i1 by (intro roundInt_exact) simp
  have r3: "roundInt (int ?h * 3600 + int ?m * 60) = D_Int (int ?h * 3600 + int ?m * 60)"
    using le(2) b unfolding i1 by (intro roundInt_exact) (simp flip: of_nat_add)
  have e: "int ?h * 3600 + int ?m * 60 + int ?s = int s"
    unfolding i1 using le(3) by (simp flip: of_nat_add)
  have r4: "roundInt (int ?h * 3600 + int ?m * 60 + int ?s) = D_Int (int s)"
    unfolding e using b by (intro roundInt_exact) simp
  have "hmsToSeconds64 ?t = D_Int (int s)"
    unfolding hmsToSeconds64_def Let_def p
    by (simp add: d_part_def nth_opt_def r1 r2 r3 r4)
  then show ?thesis by (simp add: secondsToHms_nat)
qed


text \<open>
  C6, as the code has it. For every non-negative integer \<open>s\<close> below \<open>2^53\<close>, encoding
  \<open>s\<close>, decoding the text and encoding the result again gives the text of the first
  encoding.
\<close>

theorem codec_roundtrip_safe:
  "s < 2 ^ 53 \<Longrightarrow>
     secondsToHms64 (hmsToSeconds64 (secondsToHms64 (D_Int (int s)))) = secondsToHms64 (D_Int (int s))"
  by (simp add: secondsToHms64_exact hmsToSeconds64_exact)

subsection \<open>Evaluating the rounding at given numbers\<close>

lemma digit_chars:
  "char_of (48 :: nat) = CHR ''0''" "char_of (49 :: nat) = CHR ''1''"
  "char_of (50 :: nat) = CHR ''2''" "char_of (51 :: nat) = CHR ''3''"
  "char_of (52 :: nat) = CHR ''4''" "char_of (53 :: nat) = CHR ''5''"
  "char_of (54 :: nat) = CHR ''6''" "char_of (55 :: nat) = CHR ''7''"
  "char_of (56 :: nat) = CHR ''8''" "char_of (57 :: nat) = CHR ''9''"
  by code_simp+

lemma ilog2_eq:
  assumes "0 < x" and "pow2 e \<le> x" and "x < pow2 (e + 1)"
  shows "ilog2 x = e"
  using ilog2_ge [OF assms(1,2)] ilog2_less [OF assms(1,3)] by simp

lemma rne_near: "\<bar>y - of_int k\<bar> < 1 / 2 \<Longrightarrow> rne y = k"
proof -
  assume a: "\<bar>y - of_int k\<bar> < 1 / 2"
  have "\<lfloor>y\<rfloor> = k \<or> \<lfloor>y\<rfloor> = k - 1" using a by linarith
  then show ?thesis
  proof
    assume f: "\<lfloor>y\<rfloor> = k"
    then have "y - of_int k < 1 / 2" using a by linarith
    then show ?thesis by (simp add: rne_def f)
  next
    assume f: "\<lfloor>y\<rfloor> = k - 1"
    then have "1 / 2 < y - of_int (k - 1)" using a by (simp; linarith)
    then show ?thesis by (simp add: rne_def f)
  qed
qed

lemma rne_tie: "y = of_int k + 1 / 2 \<Longrightarrow> even k \<Longrightarrow> rne y = k"
proof -
  assume y: "y = of_int k + 1 / 2" and e: "even k"
  have z: "\<lfloor>(1 :: rat) / 2\<rfloor> = 0" by linarith
  show ?thesis by (simp add: rne_def Let_def y e z)
qed

text \<open>Rounding an integer of \<open>e + 1\<close> bits, \<open>52 \<le> e\<close>, to a multiple of \<open>2 ^ (e - 52)\<close>.\<close>

lemma roundInt_big:
  fixes n k :: int and e :: nat
  assumes n: "2 ^ e \<le> n" "n < 2 ^ (e + 1)" and e: "52 \<le> e" "e < 1023"
    and k: "rne (of_int n / 2 ^ (e - 52)) = k" and top: "k * 2 ^ (e - 52) < 2 ^ 1024"
    and kpos: "0 \<le> k"
  shows "roundInt n = D_Int (k * 2 ^ (e - 52))"
proof -
  have n0: "0 < n" using n(1) by (rule less_le_trans [rotated]) simp
  have x: "\<bar>(of_int n :: rat)\<bar> = of_int n" using n0 by simp
  have "(of_int (2 ^ e) :: rat) \<le> of_int n" using n(1) by (simp only: of_int_le_iff)
  then have lo: "pow2 (int e) \<le> of_int n" by (simp add: pow2_nat)
  have "(of_int n :: rat) < of_int (2 ^ (e + 1))" using n(2) by (simp only: of_int_less_iff)
  then have hi: "(of_int n :: rat) < pow2 (int e + 1)"
    unfolding pow2_Suc pow2_nat by simp
  have il: "ilog2 (of_int n :: rat) = int e"
    using n0 lo hi by (intro ilog2_eq) simp_all
  have u: "pow2 (int e - 52) = 2 ^ (e - 52)"
    using e pow2_nat [of "e - 52"] by (simp add: of_nat_diff)
  have fk: "fl (of_int n) = 2 ^ (e - 52) * of_int k"
    using n0 by (simp add: fl_def x il u Let_def max_def k)
  define m where "m = k * 2 ^ (e - 52)"
  have f: "fl (of_int n) = of_int m" unfolding fk m_def by simp
  have "(of_int m :: rat) < of_int (2 ^ 1024)"
    using top unfolding m_def by (simp only: of_int_less_iff)
  moreover have "(0 :: rat) \<le> of_int m" using kpos by (simp add: m_def)
  ultimately have "\<not> (2 :: rat) ^ 1024 \<le> \<bar>of_int m\<bar>" by simp
  then have "roundInt n = D_Int m"
    unfolding roundInt_def Let_def f by simp
  then show ?thesis by (simp add: m_def)
qed

lemma fl_value:
  assumes "0 < x" and "pow2 e \<le> x" and "x < pow2 (e + 1)" and "- 1022 \<le> e"
    and "rne (x / pow2 (e - 52)) = k"
  shows "fl x = pow2 (e - 52) * of_int k"
proof -
  have "ilog2 \<bar>x\<bar> = e" using assms(1-3) by (simp add: ilog2_eq)
  then show ?thesis
    using assms(1,4,5) by (simp add: fl_def Let_def max_def)
qed

text \<open>The round trip of 3661 seconds.\<close>

theorem codec_roundtrip_safe_witness:
  "(3661 :: nat) < 2 ^ 53 \<and> secondsToHms64 (D_Int 3661) = ''01:01:01'' \<and>
   secondsToHms64 (hmsToSeconds64 (secondsToHms64 (D_Int 3661))) = ''01:01:01''"
proof -
  have a: "(3661 :: nat) < 2 ^ 53" by simp
  have "secondsToHms (Num (int 3661)) = ''01:01:01''"
    unfolding secondsToHms_nat by (simp add: padStart2_def showNat.simps digit_chars)
  then have b: "secondsToHms64 (D_Int 3661) = ''01:01:01''"
    using secondsToHms64_exact [OF a] by simp
  show ?thesis
    using a b codec_roundtrip_safe [OF a] by simp
qed

subsection \<open>The round trip at \<open>10^18 + 128\<close>\<close>

lemma show_277777777777777: "showNat 277777777777777 = ''277777777777777''"
  by (simp add: showNat.simps digit_chars)

lemma show_small: "showNat 48 = ''48''" "showNat 46 = ''46''" "showNat 40 = ''40''"
  by (simp_all add: showNat.simps digit_chars)

lemma floor_div_big_128:
  "d_floor_div (D_Int 1000000000000000128) 3600 = D_Int 277777777777777"
proof -
  define x :: rat where "x = 1000000000000000128 / 3600"
  have r: "rne (x / pow2 (47 - 52)) = 8888888888888890"
    by (rule rne_near) (simp add: x_def pow2_def)
  have "fl x = pow2 (47 - 52) * of_int 8888888888888890"
    by (rule fl_value [OF _ _ _ _ r]) (simp_all add: x_def pow2_def)
  then have "fl x = 8888888888888890 / 32" by (simp add: pow2_def)
  then have "\<lfloor>fl x\<rfloor> = 277777777777777" by linarith
  then show ?thesis by (simp add: x_def)
qed

lemma floor_div_big:
  "d_floor_div (D_Int 1000000000000000000) 3600 = D_Int 277777777777777"
proof -
  define x :: rat where "x = 1000000000000000000 / 3600"
  have r: "rne (x / pow2 (47 - 52)) = 8888888888888889"
    by (rule rne_near) (simp add: x_def pow2_def)
  have "fl x = pow2 (47 - 52) * of_int 8888888888888889"
    by (rule fl_value [OF _ _ _ _ r]) (simp_all add: x_def pow2_def)
  then have "fl x = 8888888888888889 / 32" by (simp add: pow2_def)
  then have "\<lfloor>fl x\<rfloor> = 277777777777777" by linarith
  then show ?thesis by (simp add: x_def)
qed

lemma floor_div_minutes:
  "d_floor_div (D_Int 2928) 60 = D_Int 48" "d_floor_div (D_Int 2800) 60 = D_Int 46"
proof -
  have "\<lfloor>fl (of_int 2928 / of_int 60)\<rfloor> = 2928 div 60"
    by (rule floor_fl_div) simp_all
  then show "d_floor_div (D_Int 2928) 60 = D_Int 48" by simp
  have "\<lfloor>fl (of_int 2800 / of_int 60)\<rfloor> = 2800 div 60"
    by (rule floor_fl_div) simp_all
  then show "d_floor_div (D_Int 2800) 60 = D_Int 46" by simp
qed

lemma encode_big_128: "secondsToHms64 (D_Int 1000000000000000128) = ''277777777777777:48:48''"
proof -
  have r: "d_rem (D_Int 1000000000000000128) 3600 = D_Int 2928"
    "d_rem (D_Int 1000000000000000128) 60 = D_Int 48"
    by simp_all
  show ?thesis
    unfolding secondsToHms64_def Let_def r floor_div_big_128 floor_div_minutes
    by (simp add: showDouble_def show_277777777777777 show_small padStart2_def)
qed

lemma encode_big: "secondsToHms64 (D_Int 1000000000000000000) = ''277777777777777:46:40''"
proof -
  have r: "d_rem (D_Int 1000000000000000000) 3600 = D_Int 2800"
    "d_rem (D_Int 1000000000000000000) 60 = D_Int 40"
    by simp_all
  show ?thesis
    unfolding secondsToHms64_def Let_def r floor_div_big floor_div_minutes
    by (simp add: showDouble_def show_277777777777777 show_small padStart2_def)
qed

lemma round_product: "roundInt 999999999999997200 = D_Int 999999999999997184"
proof -
  have r: "rne (of_int 999999999999997200 / 2 ^ (59 - 52)) = 7812499999999978"
    by (rule rne_near) simp
  have "roundInt 999999999999997200 = D_Int (7812499999999978 * 2 ^ (59 - 52))"
    by (rule roundInt_big [OF _ _ _ _ r]) simp_all
  then show ?thesis by simp
qed

lemma round_sum_tie: "roundInt 1000000000000000064 = D_Int 1000000000000000000"
proof -
  have r: "rne (of_int 1000000000000000064 / 2 ^ (59 - 52)) = 7812500000000000"
    by (rule rne_tie) simp_all
  have "roundInt 1000000000000000064 = D_Int (7812500000000000 * 2 ^ (59 - 52))"
    by (rule roundInt_big [OF _ _ _ _ r]) simp_all
  then show ?thesis by simp
qed

lemma round_sum_last: "roundInt 1000000000000000048 = D_Int 1000000000000000000"
proof -
  have r: "rne (of_int 1000000000000000048 / 2 ^ (59 - 52)) = 7812500000000000"
    by (rule rne_near) simp
  have "roundInt 1000000000000000048 = D_Int (7812500000000000 * 2 ^ (59 - 52))"
    by (rule roundInt_big [OF _ _ _ _ r]) simp_all
  then show ?thesis by simp
qed

lemma big_128_is_double: "roundInt 1000000000000000128 = D_Int 1000000000000000128"
proof -
  have r: "rne (of_int 1000000000000000128 / 2 ^ (59 - 52)) = 7812500000000001"
    by (rule rne_near) simp
  have "roundInt 1000000000000000128 = D_Int (7812500000000001 * 2 ^ (59 - 52))"
    by (rule roundInt_big [OF _ _ _ _ r]) simp_all
  then show ?thesis by simp
qed

lemma parse_fields:
  "parseInt64 ''277777777777777'' = D_Int 277777777777777" "parseInt64 ''48'' = D_Int 48"
proof -
  have "parseInt64 (padStart2 (showNat 277777777777777)) = D_Int (int 277777777777777)"
    by (rule parseInt64_padded) simp
  then show "parseInt64 ''277777777777777'' = D_Int 277777777777777"
    by (simp add: show_277777777777777 padStart2_def)
  have "parseInt64 (padStart2 (showNat 48)) = D_Int (int 48)"
    by (rule parseInt64_padded) simp
  then show "parseInt64 ''48'' = D_Int 48"
    by (simp add: show_small padStart2_def)
qed

lemma decode_big: "hmsToSeconds64 ''277777777777777:48:48'' = D_Int 1000000000000000000"
proof -
  have s: "js_split (CHR '':'') ''277777777777777:48:48'' = [''277777777777777'', ''48'', ''48'']"
    by simp
  have e: "roundInt 2880 = D_Int 2880" by (rule roundInt_exact) simp
  show ?thesis
    unfolding hmsToSeconds64_def Let_def s
    by (simp add: parse_fields d_part_def nth_opt_def round_product e round_sum_tie round_sum_last)
qed


text \<open>
  C6 as the specification states it, for every non-negative integer, fails at
  \<open>10^18 + 128\<close>, which is a double: the product and the sums of the decoder are rounded,
  the decoded number is \<open>10^18\<close>, and the second text differs from the first.
\<close>

theorem codec_roundtrip_counterexample:
  "roundInt 1000000000000000128 = D_Int 1000000000000000128 \<and>
   secondsToHms64 (D_Int 1000000000000000128) = ''277777777777777:48:48'' \<and>
   hmsToSeconds64 (secondsToHms64 (D_Int 1000000000000000128)) = D_Int 1000000000000000000 \<and>
   secondsToHms64 (hmsToSeconds64 (secondsToHms64 (D_Int 1000000000000000128)))
     = ''277777777777777:46:40'' \<and>
   secondsToHms64 (hmsToSeconds64 (secondsToHms64 (D_Int 1000000000000000128)))
     \<noteq> secondsToHms64 (D_Int 1000000000000000128)"
  by (simp add: big_128_is_double encode_big_128 decode_big encode_big)

section \<open>Properties of the time-field editor\<close>

lemma isDigitKey_iff: "isDigitKey key \<longleftrightarrow> (\<exists>c. key = [c] \<and> c \<in> set ''0123456789'')"
proof -
  have "isDecimalDigit c \<longleftrightarrow> c \<in> set ''0123456789''" for c
  proof
    assume dec: "isDecimalDigit c"
    have e: "map char_of [48 :: nat, 49, 50, 51, 52, 53, 54, 55, 56, 57] = ''0123456789''"
      by code_simp
    have m: "(of_char c :: nat) \<in> set [48, 49, 50, 51, 52, 53, 54, 55, 56, 57]"
      using dec unfolding isDecimalDigit_def by simp arith
    have "char_of (of_char c :: nat) \<in> set (map char_of [48 :: nat, 49, 50, 51, 52, 53, 54, 55, 56, 57])"
      unfolding set_map using m by (rule imageI)
    then show "c \<in> set ''0123456789''"
      unfolding e by simp
  next
    assume "c \<in> set ''0123456789''"
    then show "isDecimalDigit c" by (auto simp: isDecimalDigit_def)
  qed
  then show ?thesis
    by (auto simp: isDigitKey_def split: list.splits)
qed

text \<open>
  C10. For every buffer, every caret position and every key string that is not a single
  decimal digit character, \<open>handleTimeInput\<close> returns the buffer unchanged.
\<close>

theorem non_digit_key_identity:
  "\<not> (\<exists>c. key = [c] \<and> c \<in> set ''0123456789'') \<Longrightarrow>
     handleTimeInput currentValue key cursorPos = currentValue"
  by (simp add: handleTimeInput_def isDigitKey_iff)

theorem non_digit_key_identity_witness:
  "\<not> (\<exists>c. ''Backspace'' = [c] \<and> c \<in> set ''0123456789'') \<and>
     handleTimeInput ''12:34:56'' ''Backspace'' 4 = ''12:34:56''"
  using non_digit_key_identity [of "''Backspace''" "''12:34:56''" 4] by simp

lemma js_split_buffer:
  assumes "CHR '':'' \<notin> set [h1, h2, m1, m2, s1, s2]"
  shows "js_split (CHR '':'') [h1, h2, CHR '':'', m1, m2, CHR '':'', s1, s2] = [ [h1, h2], [m1, m2], [s1, s2] ]"
  using assms by auto

lemma parseTimeString_buffer:
  assumes "CHR '':'' \<notin> set [h1, h2, m1, m2, s1, s2]"
  shows "parseTimeString [h1, h2, CHR '':'', m1, m2, CHR '':'', s1, s2] = ([h1, h2], [m1, m2], [s1, s2])"
  unfolding parseTimeString_def Let_def js_split_buffer [OF assms]
  by (simp add: nth_opt_def orDefault_def padStart2_def)

text \<open>
  C5, as the code has it. For every \<^verbatim>\<open>HH:MM:SS\<close> buffer, caret position \<open>p\<close> and digit key
  \<open>d\<close>, the digit-key operation targets the hours when \<open>p \<le> 2\<close>, the minutes when
  \<open>3 \<le> p \<le> 5\<close> and the seconds otherwise (a caret just before a colon, at index 2 or 5,
  belongs to the field that ends there), and it replaces the targeted sub-field with its
  former low digit followed by \<open>d\<close>, leaving the other two sub-fields unchanged.
\<close>

theorem digit_key_shift:
  assumes "isHmsBuffer buf" and "isDecimalDigit d"
  shows "handleTimeInput buf [d] p =
           shiftDigit (if p \<le> 2 then hours else if p \<le> 5 then minutes else seconds) buf d"
proof -
  from assms(1) obtain h1 h2 m1 m2 s1 s2 where
    buf: "buf = [h1, h2, CHR '':'', m1, m2, CHR '':'', s1, s2]"
    and dig: "\<forall>c \<in> set [h1, h2, m1, m2, s1, s2]. isDecimalDigit c"
    by (auto simp: isHmsBuffer_def split: list.splits)
  from dig have nc: "CHR '':'' \<notin> set [h1, h2, m1, m2, s1, s2]"
    using isDecimalDigit_plain(1) by blast
  have key: "isDigitKey [d]" using assms(2) by (simp add: isDigitKey_def)
  show ?thesis
    unfolding buf handleTimeInput_def parseTimeString_buffer [OF nc]
    using key by (simp add: fieldAt_def shiftDigit_def charAt_def padStart2_def Let_def)
qed

theorem digit_key_shift_witness:
  "isHmsBuffer ''12:34:56'' \<and> isDecimalDigit (CHR ''7'') \<and>
   handleTimeInput ''12:34:56'' ''7'' 2 = ''27:34:56'' \<and>
   handleTimeInput ''12:34:56'' ''7'' 5 = ''12:47:56'' \<and>
   handleTimeInput ''12:34:56'' ''7'' 6 = ''12:34:67''"
proof -
  have b: "isHmsBuffer ''12:34:56''" by (simp add: isHmsBuffer_def isDecimalDigit_def)
  have d: "isDecimalDigit (CHR ''7'')" by (simp add: isDecimalDigit_def)
  show ?thesis
    using b d digit_key_shift [OF b d, of 2] digit_key_shift [OF b d, of 5]
      digit_key_shift [OF b d, of 6]
    by (simp add: shiftDigit_def)
qed

text \<open>
  C5 as the specification states it gives the caret position 2 to the minutes; the code
  shifts the hours there.
\<close>

theorem digit_key_claimed_counterexample:
  "isHmsBuffer ''12:34:56'' \<and>
   handleTimeInput ''12:34:56'' ''7'' 2 \<noteq> shiftDigit (claimedField 2) ''12:34:56'' (CHR ''7'')"
  by (simp add: isHmsBuffer_def isDecimalDigit_def handleTimeInput_def parseTimeString_def
      nth_opt_def orDefault_def padStart2_def isDigitKey_def fieldAt_def charAt_def
      shiftDigit_def claimedField_def Let_def)

section \<open>Decoding texts with fewer or more than three segments\<close>

lemma hmsToSeconds_no_colon: "CHR '':'' \<notin> set t \<Longrightarrow> hmsToSeconds t = Num 0"
  by (simp add: hmsToSeconds_def)

lemma hmsToSeconds_three_segments:
  assumes "js_split (CHR '':'') t = a # b # c # rest"
  shows "hmsToSeconds t =
           Num (orZero (parseInt a) * 3600 + orZero (parseInt b) * 60 + orZero (parseInt c))"
proof -
  have "CHR '':'' \<in> set t"
  proof (rule ccontr)
    assume "CHR '':'' \<notin> set t"
    then have "js_split (CHR '':'') t = [t]" by (rule js_split_plain)
    with assms show False by simp
  qed
  moreover have "t \<noteq> []" using assms by auto
  ultimately show ?thesis
    by (simp add: hmsToSeconds_def assms part_num_def nth_opt_def)
qed

lemma hmsToSeconds_two_segments_general:
  assumes "js_split (CHR '':'') t = [a, b]"
  shows "hmsToSeconds t = NaN"
proof -
  have "CHR '':'' \<in> set t"
  proof (rule ccontr)
    assume "CHR '':'' \<notin> set t"
    then have "js_split (CHR '':'') t = [t]" by (rule js_split_plain)
    with assms show False by simp
  qed
  moreover have "t \<noteq> []" using assms by auto
  ultimately show ?thesis
    by (simp add: hmsToSeconds_def assms part_num_def nth_opt_def)
qed

text \<open>
  C4 at the input \<^verbatim>\<open>"12:34"\<close>. The claim gives a missing trailing segment the value 0,
  so that the text decodes to \<open>12 * 3600 + 34 * 60 = 45240\<close>; the code reads
  \<^verbatim>\<open>parts[2]\<close> past the end of the array and returns \<^verbatim>\<open>NaN\<close>.
\<close>

theorem hmsToSeconds_two_segments: "hmsToSeconds ''12:34'' = NaN"
  by (simp add: hmsToSeconds_def part_num_def nth_opt_def)

section \<open>Properties of the controller\<close>

subsection \<open>What the corrective effects leave alone\<close>

lemma endEffect_other [simp]:
  "parsed (endEffect st) = parsed st" "preview (endEffect st) = preview st"
  "sent (endEffect st) = sent st" "timer (endEffect st) = timer st"
  "inflight (endEffect st) = inflight st" "isDownloading (endEffect st) = isDownloading st"
  "installingFfmpeg (endEffect st) = installingFfmpeg st"
  "availableQualities (endEffect st) = availableQualities st"
  "selectedQuality (endEffect st) = selectedQuality st"
  "startTime (endEffect st) = startTime st"
  by (simp_all add: endEffect_def split: option.splits)

lemma startEffect_other [simp]:
  "parsed (startEffect st) = parsed st" "preview (startEffect st) = preview st"
  "sent (startEffect st) = sent st" "timer (startEffect st) = timer st"
  "inflight (startEffect st) = inflight st" "isDownloading (startEffect st) = isDownloading st"
  "installingFfmpeg (startEffect st) = installingFfmpeg st"
  "availableQualities (startEffect st) = availableQualities st"
  "selectedQuality (startEffect st) = selectedQuality st"
  "endTime (startEffect st) = endTime st"
  by (simp_all add: startEffect_def split: option.splits)

lemma rangeEffects_other [simp]:
  "parsed (rangeEffects st) = parsed st" "preview (rangeEffects st) = preview st"
  "sent (rangeEffects st) = sent st" "timer (rangeEffects st) = timer st"
  "inflight (rangeEffects st) = inflight st" "isDownloading (rangeEffects st) = isDownloading st"
  "installingFfmpeg (rangeEffects st) = installingFfmpeg st"
  "availableQualities (rangeEffects st) = availableQualities st"
  "selectedQuality (rangeEffects st) = selectedQuality st"
  by (simp_all add: rangeEffects_def)

lemma rangeEffects_derived [simp]:
  "isClip (rangeEffects st) = isClip st" "isBusy (rangeEffects st) = isBusy st"
  "knownDuration (rangeEffects st) = knownDuration st"
  by (simp_all add: isClip_def isBusy_def knownDuration_def previewDuration_def)

lemma effects_derived [simp]:
  "isClip (endEffect st) = isClip st" "knownDuration (endEffect st) = knownDuration st"
  "isClip (startEffect st) = isClip st" "knownDuration (startEffect st) = knownDuration st"
  by (simp_all add: isClip_def knownDuration_def previewDuration_def)

subsection \<open>Single flight\<close>

text \<open>
  C2. In every state in which the busy flag is set, the download trigger (the button
  with its \<^verbatim>\<open>disabled\<close> attribute) changes no state and sends no command to the backend.
\<close>

theorem busy_click_is_noop:
  "isBusy st \<Longrightarrow> handle ClickDownload st = st \<and> sent (step st ClickDownload) = sent st"
  by (simp add: clickDownload_def downloadDisabled_def step_def)

text \<open>A second click while the download of the first video is running.\<close>

theorem busy_click_is_noop_witness:
  "isBusy downloading \<and> handle ClickDownload downloading = downloading \<and>
   sent (step downloading ClickDownload) = sent downloading \<and>
   sent downloading = [download_vod ''123456'' ''00:00:00'' [] ''out'' None]"
proof -
  have b: "isBusy downloading" by code_simp
  have s: "sent downloading = [download_vod ''123456'' ''00:00:00'' [] ''out'' None]" by code_simp
  show ?thesis using b s busy_click_is_noop [OF b] by simp
qed

subsection \<open>The handlers of a settled metadata fetch\<close>

lemma sortQualities_descending:
  "sorted_wrt (\<lambda>a b. bandwidth a \<ge> bandwidth b) (sortQualities qs)"
proof -
  have "sorted (map (\<lambda>q. - bandwidth q) (sortQualities qs))"
    unfolding sortQualities_def by (rule sorted_sort_key)
  then show ?thesis
    by (simp add: sorted_wrt_map)
qed

lemma sortQualities_same_options: "mset (sortQualities qs) = mset qs"
  by (simp add: sortQualities_def)

lemma sortQualities_empty [simp]: "sortQualities [] = []"
  by (simp add: sortQualities_def)

lemma videoInfoLoaded_fields:
  "preview (videoInfoLoaded info st) =
     Some \<lparr> title = vod_title info, channel = vod_channel info,
            thumbnail = vod_thumbnail info, duration = Some (vod_duration info) \<rparr>"
  "0 < vod_duration info \<Longrightarrow>
     endTime (videoInfoLoaded info st) = secondsToHms (Num (int (vod_duration info)))"
  "vod_duration info = 0 \<Longrightarrow> endTime (videoInfoLoaded info st) = endTime st"
  "availableQualities (videoInfoLoaded info st) = sortQualities (vod_qualities info)"
  "vod_qualities info \<noteq> [] \<Longrightarrow> selectedQuality (videoInfoLoaded info st) = ''auto''"
  "vod_qualities info = [] \<Longrightarrow> selectedQuality (videoInfoLoaded info st) = selectedQuality st"
  "startTime (videoInfoLoaded info st) = startTime st"
  "parsed (videoInfoLoaded info st) = parsed st"
  by (simp_all add: videoInfoLoaded_def Let_def)

text \<open>The end time written by a successful fetch is not changed by the corrective
  effect: it decodes to the duration itself.\<close>

lemma endEffect_keeps_encoded_duration:
  assumes "knownDuration st = Some d" and "endTime st = secondsToHms (Num (int d))"
  shows "endTime (endEffect st) = endTime st"
  using assms by (simp add: endEffect_def hmsToSeconds_secondsToHms)

lemma step_video_loaded:
  assumes "r \<in> set (inflight st)" and "rtype r = video"
  shows "preview (step st (VideoInfoResolved r (Inr info))) =
           Some \<lparr> title = vod_title info, channel = vod_channel info,
                  thumbnail = vod_thumbnail info, duration = Some (vod_duration info) \<rparr>"
    and "0 < vod_duration info \<Longrightarrow>
           endTime (step st (VideoInfoResolved r (Inr info))) = secondsToHms (Num (int (vod_duration info)))"
    and "availableQualities (step st (VideoInfoResolved r (Inr info))) = sortQualities (vod_qualities info)"
    and "vod_qualities info \<noteq> [] \<Longrightarrow> selectedQuality (step st (VideoInfoResolved r (Inr info))) = ''auto''"
    and "vod_qualities info = [] \<Longrightarrow>
           selectedQuality (step st (VideoInfoResolved r (Inr info))) = selectedQuality st"
proof -
  let ?h = "videoInfoResolved r (Inr info) st"
  have h: "?h = (videoInfoLoaded info (st\<lparr>inflight := remove1 r (inflight st)\<rparr>))\<lparr>fetchingInfo := False\<rparr>"
    using assms by (simp add: videoInfoResolved_def Let_def)
  show "preview (step st (VideoInfoResolved r (Inr info))) =
           Some \<lparr> title = vod_title info, channel = vod_channel info,
                  thumbnail = vod_thumbnail info, duration = Some (vod_duration info) \<rparr>"
    by (simp add: step_def h videoInfoLoaded_fields)
  show "availableQualities (step st (VideoInfoResolved r (Inr info))) = sortQualities (vod_qualities info)"
    by (simp add: step_def h videoInfoLoaded_fields)
  show "vod_qualities info \<noteq> [] \<Longrightarrow> selectedQuality (step st (VideoInfoResolved r (Inr info))) = ''auto''"
    by (simp add: step_def h videoInfoLoaded_fields)
  show "vod_qualities info = [] \<Longrightarrow>
           selectedQuality (step st (VideoInfoResolved r (Inr info))) = selectedQuality st"
    by (simp add: step_def h videoInfoLoaded_fields)
  show "endTime (step st (VideoInfoResolved r (Inr info))) = secondsToHms (Num (int (vod_duration info)))"
    if pos: "0 < vod_duration info"
  proof -
    have e: "endTime ?h = secondsToHms (Num (int (vod_duration info)))"
      using pos by (simp add: h videoInfoLoaded_fields)
    have k: "knownDuration ?h = Some (vod_duration info)"
      using pos by (simp add: h knownDuration_def previewDuration_def videoInfoLoaded_fields)
    have "endTime (endEffect ?h) = endTime ?h"
      using k e by (rule endEffect_keeps_encoded_duration)
    then show ?thesis
      by (simp add: step_def rangeEffects_def e)
  qed
qed

text \<open>
  C9 at a resolved video whose answer carries no quality. The claim resets the quality
  selection to \<^verbatim>\<open>"auto"\<close> on every successful fetch of a video; the code does so only in
  the branch of a non-empty quality set. Here the option \<^verbatim>\<open>1080p\<close> chosen for the first
  video stays selected after the second video has been resolved with an empty set, and
  the download of the second video is requested with it.
\<close>

theorem empty_quality_set_keeps_selection:
  "parsed chosen1080 = Some ref2 \<and> ref2 \<in> set (inflight chosen1080) \<and>
   selectedQuality chosen1080 = ''1080p'' \<and>
   selectedQuality (step chosen1080 (VideoInfoResolved ref2 (Inr info2))) = ''1080p'' \<and>
   availableQualities (step chosen1080 (VideoInfoResolved ref2 (Inr info2))) = [] \<and>
   sent (run chosen1080 [VideoInfoResolved ref2 (Inr info2), SetOutputDir ''out'', ClickDownload])
     = [fetch_video_info ''123456'', fetch_video_info ''777'',
        download_vod ''777'' ''00:00:00'' ''00:02:00'' ''out'' (Some ''1080p'')]"
  by code_simp

subsection \<open>Results of superseded fetches\<close>

text \<open>
  C1, as the code has it. A change of the parsed reference replaces the pending debounce
  timer and sends nothing, so a fetch that has not started when its reference is
  superseded never starts. A fetch that is in flight is not guarded: when it settles
  with success for a video, the preview, the end-time text (for a positive duration),
  the quality set and (for a non-empty set) the quality selection are set from its
  result, whatever the parsed reference is at that moment.
\<close>

theorem inflight_result_is_applied:
  "(\<not> isBusy st \<and> p \<noteq> parsed st \<longrightarrow>
      timer (step st (ChangeInput p)) = (case p of None \<Rightarrow> None | Some r' \<Rightarrow> Some (r', 500)) \<and>
      sent (step st (ChangeInput p)) = sent st) \<and>
   (r \<in> set (inflight st) \<and> rtype r = video \<longrightarrow>
      preview (step st (VideoInfoResolved r (Inr info))) =
        Some \<lparr> title = vod_title info, channel = vod_channel info,
               thumbnail = vod_thumbnail info, duration = Some (vod_duration info) \<rparr> \<and>
      (0 < vod_duration info \<longrightarrow>
         endTime (step st (VideoInfoResolved r (Inr info))) = secondsToHms (Num (int (vod_duration info)))) \<and>
      availableQualities (step st (VideoInfoResolved r (Inr info))) = sortQualities (vod_qualities info) \<and>
      (vod_qualities info \<noteq> [] \<longrightarrow>
         selectedQuality (step st (VideoInfoResolved r (Inr info))) = ''auto''))"
proof (intro conjI impI)
  assume a: "\<not> isBusy st \<and> p \<noteq> parsed st"
  then show "timer (step st (ChangeInput p)) = (case p of None \<Rightarrow> None | Some r' \<Rightarrow> Some (r', 500))"
    by (simp add: step_def resolverEffect_def split: option.splits)
  from a show "sent (step st (ChangeInput p)) = sent st"
    by (simp add: step_def resolverEffect_def split: option.splits)
next
  assume b: "r \<in> set (inflight st) \<and> rtype r = video"
  then have i: "r \<in> set (inflight st)" and v: "rtype r = video" by simp_all
  show "preview (step st (VideoInfoResolved r (Inr info))) =
        Some \<lparr> title = vod_title info, channel = vod_channel info,
               thumbnail = vod_thumbnail info, duration = Some (vod_duration info) \<rparr>"
    using i v by (rule step_video_loaded)
  show "availableQualities (step st (VideoInfoResolved r (Inr info))) = sortQualities (vod_qualities info)"
    using i v by (rule step_video_loaded)
  show "endTime (step st (VideoInfoResolved r (Inr info))) = secondsToHms (Num (int (vod_duration info)))"
    if "0 < vod_duration info"
    using i v that by (rule step_video_loaded)
  show "selectedQuality (step st (VideoInfoResolved r (Inr info))) = ''auto''"
    if "vod_qualities info \<noteq> []"
    using i v that by (rule step_video_loaded)
qed

text \<open>The theorem at the state \<open>superseded\<close>: the parsed reference is the second video
  and the fetch for the first one settles.\<close>

theorem inflight_result_is_applied_witness:
  "\<not> isBusy superseded \<and> None \<noteq> parsed superseded \<and> parsed superseded = Some ref2 \<and>
   timer superseded = Some (ref2, 500) \<and>
   timer (step superseded (ChangeInput None)) = None \<and>
   ref1 \<in> set (inflight superseded) \<and> rtype ref1 = video \<and> 0 < vod_duration info1 \<and>
   vod_qualities info1 \<noteq> [] \<and>
   preview (step superseded (VideoInfoResolved ref1 (Inr info1))) =
     Some \<lparr> title = ''first'', channel = ''ch'', thumbnail = ''t1'', duration = Some 3661 \<rparr> \<and>
   endTime (step superseded (VideoInfoResolved ref1 (Inr info1))) = ''01:01:01'' \<and>
   availableQualities (step superseded (VideoInfoResolved ref1 (Inr info1))) = [q1080, q480] \<and>
   selectedQuality (step superseded (VideoInfoResolved ref1 (Inr info1))) = ''auto''"
proof -
  have h: "\<not> isBusy superseded" "None \<noteq> parsed superseded" "parsed superseded = Some ref2"
    "timer superseded = Some (ref2, 500)"
    "ref1 \<in> set (inflight superseded)" "rtype ref1 = video" "0 < vod_duration info1"
    "vod_qualities info1 \<noteq> []"
    by code_simp+
  have v: "vod_title info1 = ''first''" "vod_channel info1 = ''ch''" "vod_thumbnail info1 = ''t1''"
    "vod_duration info1 = 3661" "sortQualities (vod_qualities info1) = [q1080, q480]"
    "secondsToHms (Num 3661) = ''01:01:01''"
    by code_simp+
  show ?thesis
    using h inflight_result_is_applied [of superseded None ref1 info1]
    by (simp add: v)
qed

text \<open>
  C1 as the specification states it fails: the fetch for the first video settles after
  the reference has changed to the second, and preview, end time and quality set show
  the first video.
\<close>

theorem stale_result_counterexample:
  "parsed superseded = Some ref2 \<and> ref2 \<noteq> ref1 \<and> preview superseded = None \<and>
   endTime superseded = [] \<and> availableQualities superseded = [] \<and>
   parsed (step superseded (VideoInfoResolved ref1 (Inr info1))) = Some ref2 \<and>
   preview (step superseded (VideoInfoResolved ref1 (Inr info1))) =
     Some \<lparr> title = ''first'', channel = ''ch'', thumbnail = ''t1'', duration = Some 3661 \<rparr> \<and>
   endTime (step superseded (VideoInfoResolved ref1 (Inr info1))) = ''01:01:01'' \<and>
   availableQualities (step superseded (VideoInfoResolved ref1 (Inr info1))) = [q1080, q480]"
  by code_simp

subsection \<open>Debounce\<close>



lemma run_append: "run st (xs @ ys) = run (run st xs) ys"
  by (simp add: run_def)

lemma run_Cons: "run st (ev # evs) = run (step st ev) evs"
  by (simp add: run_def)

lemma run_Nil: "run st [] = st"
  by (simp add: run_def)




text \<open>A change to no reference starts no fetch, however long the quiet period.\<close>

lemma burst_to_none_starts_nothing:
  assumes "\<not> isBusy st" and "None \<noteq> parsed st"
  shows "sent (step (step st (ChangeInput None)) (Elapse dt)) = sent st"
  using assms
  by (auto simp: step_def resolverEffect_def elapse_def split: option.splits)

subsection \<open>Range invariant\<close>

lemma encoded_ok: "startOk (secondsToHms (Num (int n)))" "endOk (secondsToHms (Num (int n)))"
  by (simp_all add: startOk_def endOk_def hmsToSeconds_secondsToHms)

lemma max_start: "max 0 (int d - 60) = int (d - 60)"
  by simp

lemma okTimes_rangeEffects: "okTimes st \<Longrightarrow> okTimes (rangeEffects st)"
  by (auto simp: okTimes_def rangeEffects_def endEffect_def startEffect_def max_start encoded_ok
      simp del: of_nat_diff split: option.splits)

lemma okTimes_handle: "okTimes st \<Longrightarrow> okEvent ev \<Longrightarrow> okTimes (handle ev st)"
proof (cases ev)
  case (VideoInfoResolved r res)
  assume "okTimes st"
  then show ?thesis
    unfolding VideoInfoResolved
    by (cases res)
      (auto simp: okTimes_def videoInfoResolved_def videoInfoLoaded_def videoInfoFailed_def
        Let_def encoded_ok)
qed (auto simp: okTimes_def resolverEffect_def elapse_def timerFired_def clipInfoResolved_def
      clipInfoLoaded_def clipInfoFailed_def clickDownload_def handleDownload_def showToast_def
      downloadResolved_def clickInstall_def installResolved_def Let_def
      split: option.splits sum.splits prod.splits)

lemma okTimes_step: "okTimes st \<Longrightarrow> okEvent ev \<Longrightarrow> okTimes (step st ev)"
  by (simp add: step_def okTimes_handle okTimes_rangeEffects)

lemma okTimes_run: "okTimes st \<Longrightarrow> \<forall>ev \<in> set evs. okEvent ev \<Longrightarrow> okTimes (run st evs)"
  by (induction evs arbitrary: st) (simp_all add: run_Nil run_Cons okTimes_step)

lemma time_update_derived [simp]:
  "knownDuration (st\<lparr>endTime := x\<rparr>) = knownDuration st"
  "knownDuration (st\<lparr>startTime := x\<rparr>) = knownDuration st"
  "isClip (st\<lparr>endTime := x\<rparr>) = isClip st"
  "isClip (st\<lparr>startTime := x\<rparr>) = isClip st"
  by (simp_all add: knownDuration_def previewDuration_def isClip_def)

lemma secondsToHms_nonempty [simp]: "secondsToHms (Num (int n)) \<noteq> []"
  by (simp add: secondsToHms_nat)

text \<open>One pass of the corrective effects reaches a state that they leave as it is.\<close>

lemma endEffect_idem: "endEffect (endEffect st) = endEffect st"
proof (cases "knownDuration st")
  case None
  then show ?thesis by (simp add: endEffect_def)
next
  case (Some d)
  then show ?thesis by (simp add: endEffect_def hmsToSeconds_secondsToHms)
qed

lemma startEffect_idem: "startEffect (startEffect st) = startEffect st"
proof (cases "knownDuration st")
  case None
  then show ?thesis by (simp add: startEffect_def)
next
  case (Some d)
  then have "0 < d" by (auto simp: knownDuration_def split: option.splits if_splits)
  then have "\<not> int d \<le> int (d - 60)" by simp
  with Some show ?thesis
    by (simp add: startEffect_def hmsToSeconds_secondsToHms max_start del: of_nat_diff)
qed

lemma effects_commute: "endEffect (startEffect st) = startEffect (endEffect st)"
proof (cases "knownDuration st")
  case None
  then show ?thesis by (simp add: endEffect_def startEffect_def)
next
  case (Some d)
  then show ?thesis by (simp add: endEffect_def startEffect_def)
qed

lemma rangeEffects_idem: "rangeEffects (rangeEffects st) = rangeEffects st"
  unfolding rangeEffects_def
  by (simp add: effects_commute startEffect_idem endEffect_idem)

lemma settled_range:
  assumes ok: "okTimes st" and vid: "\<not> isClip st" and dur: "knownDuration st = Some d"
  shows "timeRangeError (rangeEffects st) \<or> rangeHolds (rangeEffects st)"
proof -
  let ?s = "rangeEffects st"
  have d: "0 < d" using dur by (auto simp: knownDuration_def split: option.splits if_splits)
  obtain a where a: "hmsToSeconds (startTime st) = Num a" "0 \<le> a"
    using ok by (auto simp: okTimes_def startOk_def split: jsnum.splits)
  obtain e where e: "hmsToSeconds (endTime st) = Num e"
    using ok by (auto simp: okTimes_def endOk_def split: jsnum.splits)
  have st': "startTime ?s = startTime (startEffect st)"
    using dur by (simp add: rangeEffects_def startEffect_def)
  have en': "endTime ?s = endTime (endEffect st)"
    by (simp add: rangeEffects_def)
  have "\<exists>a'. hmsToSeconds (startTime (startEffect st)) = Num a' \<and> 0 \<le> a'"
    using a dur vid
    by (auto simp: startEffect_def hmsToSeconds_secondsToHms max_start simp del: of_nat_diff)
  then obtain a' where a': "hmsToSeconds (startTime ?s) = Num a'" "0 \<le> a'"
    unfolding st' by blast
  have "\<exists>e'. effectiveEnd (endEffect st) d = Num e' \<and> e' \<le> int d"
    using e dur vid
    by (auto simp: effectiveEnd_def endEffect_def hmsToSeconds_secondsToHms)
  moreover have "effectiveEnd ?s d = effectiveEnd (endEffect st) d"
    by (simp add: effectiveEnd_def en')
  ultimately obtain e' where e': "effectiveEnd ?s d = Num e'" "e' \<le> int d"
    by auto
  show ?thesis
    using a' e' vid dur
    by (auto simp: timeRangeError_def rangeHolds_def)
qed

text \<open>
  C3, as the code has it. Start from a state whose time texts are in order and let any
  events happen, every text set by them being in order. If the input is then not a clip
  and the duration is known, either the blocking error is reported or
  \<open>0 \<le> start < effectiveEnd \<le> duration\<close> holds.
\<close>

theorem range_invariant:
  assumes "okTimes st" and "\<forall>ev \<in> set evs. okEvent ev" and "evs \<noteq> []"
    and "\<not> isClip (run st evs)" and "knownDuration (run st evs) = Some d"
  shows "timeRangeError (run st evs) \<or> rangeHolds (run st evs)"
proof -
  obtain evs' ev where evs: "evs = evs' @ [ev]"
    using assms(3) by (cases evs rule: rev_cases) auto
  let ?h = "handle ev (run st evs')"
  have r: "run st evs = rangeEffects ?h"
    by (simp add: evs run_append run_Cons run_Nil step_def)
  have "okTimes (run st evs')" using assms(1,2) by (intro okTimes_run) (simp_all add: evs)
  then have ok: "okTimes ?h" using assms(2) by (intro okTimes_handle) (simp_all add: evs)
  have vid: "\<not> isClip ?h" using assms(4) by (simp add: r)
  have dur: "knownDuration ?h = Some d" using assms(5) by (simp add: r)
  show ?thesis
    unfolding r using ok vid dur by (rule settled_range)
qed

text \<open>A start beyond the duration is pulled back to 60 seconds before the end; the end
  set afterwards lies before it, and the error is reported.\<close>

theorem range_invariant_witness:
  "okTimes init \<and> okEvent (ChangeInput (Some ref1)) \<and> okEvent (Elapse 500) \<and>
   okEvent (VideoInfoResolved ref1 (Inr info1)) \<and>
   okEvent (SetStartTime ''02:00:00'') \<and> okEvent (SetEndTime ''00:30:00'') \<and>
   \<not> isClip (run init [ChangeInput (Some ref1), Elapse 500, VideoInfoResolved ref1 (Inr info1),
                        SetStartTime ''02:00:00'', SetEndTime ''00:30:00'']) \<and>
   knownDuration (run init [ChangeInput (Some ref1), Elapse 500, VideoInfoResolved ref1 (Inr info1),
                        SetStartTime ''02:00:00'', SetEndTime ''00:30:00'']) = Some 3661 \<and>
   startTime (run init [ChangeInput (Some ref1), Elapse 500, VideoInfoResolved ref1 (Inr info1),
                        SetStartTime ''02:00:00'', SetEndTime ''00:30:00'']) = ''01:00:01'' \<and>
   (timeRangeError (run init [ChangeInput (Some ref1), Elapse 500, VideoInfoResolved ref1 (Inr info1),
                        SetStartTime ''02:00:00'', SetEndTime ''00:30:00'']) \<or>
    rangeHolds (run init [ChangeInput (Some ref1), Elapse 500, VideoInfoResolved ref1 (Inr info1),
                        SetStartTime ''02:00:00'', SetEndTime ''00:30:00'']))"
proof -
  let ?evs = "[ChangeInput (Some ref1), Elapse 500, VideoInfoResolved ref1 (Inr info1),
               SetStartTime ''02:00:00'', SetEndTime ''00:30:00'']"
  have a: "okTimes init" by code_simp
  have o: "okEvent (SetStartTime ''02:00:00'')" "okEvent (SetEndTime ''00:30:00'')" by code_simp+
  have b: "\<forall>ev \<in> set ?evs. okEvent ev" using o by simp
  have c: "?evs \<noteq> []" by simp
  have d: "\<not> isClip (run init ?evs)" by code_simp
  have e: "knownDuration (run init ?evs) = Some 3661" by code_simp
  have f: "startTime (run init ?evs) = ''01:00:01''" by code_simp
  show ?thesis
    using a o d e f range_invariant [OF a b c d e] by simp
qed

text \<open>
  C3 as the specification states it fails for a start text that decodes to a negative
  number: no error is reported and the start is below 0.
\<close>

theorem range_invariant_counterexample:
  "\<not> isClip negativeStart \<and> knownDuration negativeStart = Some 3661 \<and>
   startTime negativeStart = ''-1:00:00'' \<and> hmsToSeconds (startTime negativeStart) = Num (- 3600) \<and>
   \<not> timeRangeError negativeStart \<and> \<not> rangeHolds negativeStart"
  by code_simp

subsection \<open>Size estimate\<close>

text \<open>
  C8. For a quality option of bandwidth \<open>b\<close> and a range of \<open>d > 0\<close> seconds the estimate
  is \<open>round (b * d / 8 / 1000000)\<close> megabytes; the caption shows it in megabytes, or
  divided by 1000 in gigabytes when it is at least 1000; with no range duration
  (\<open>0\<close> or \<^verbatim>\<open>NaN\<close>) the caption shows the bitrate. A bandwidth of 8000000 over 100 seconds
  gives 100 MB, one of 3000000 gives 38 MB.
\<close>

theorem size_estimate:
  "(0 < d \<longrightarrow>
      estimatedSizeMB q (Num d) = Some (round (of_int (bandwidth q) * of_int d / 8 / 1000000 :: rat)) \<and>
      qualityCaption q (Num d) =
        (if 1000 \<le> round (of_int (bandwidth q) * of_int d / 8 / 1000000 :: rat)
         then SizeGB (of_int (round (of_int (bandwidth q) * of_int d / 8 / 1000000 :: rat)) / 1000)
         else SizeMB (round (of_int (bandwidth q) * of_int d / 8 / 1000000 :: rat)))) \<and>
   qualityCaption q (Num 0) = BitrateMbps (of_int (bandwidth q) / 1000000) \<and>
   qualityCaption q NaN = BitrateMbps (of_int (bandwidth q) / 1000000) \<and>
   (bandwidth q = 8000000 \<longrightarrow> qualityCaption q (Num 100) = SizeMB 100) \<and>
   (bandwidth q = 3000000 \<longrightarrow> qualityCaption q (Num 100) = SizeMB 38)"
proof -
  have e: "\<lfloor>(201 :: rat) / 2\<rfloor> = 100" by linarith
  show ?thesis
    by (simp add: estimatedSizeMB_def qualityCaption_def formatSize_def js_round_def round_def e)
qed

text \<open>The two options of the first video over 100 seconds, and the better one over an
  hour.\<close>

theorem size_estimate_witness:
  "(0 :: int) < 3600 \<and> qualityCaption q1080 (Num 3600) = SizeGB (18 / 5) \<and>
   bandwidth q1080 = 8000000 \<and> qualityCaption q1080 (Num 100) = SizeMB 100 \<and>
   bandwidth q480 = 3000000 \<and> qualityCaption q480 (Num 100) = SizeMB 38"
proof -
  have b: "bandwidth q1080 = 8000000" "bandwidth q480 = 3000000"
    by (simp_all add: q1080_def q480_def)
  have e: "\<lfloor>(7201 :: rat) / 2\<rfloor> = 3600" by linarith
  have r: "round (of_int (bandwidth q1080) * of_int 3600 / 8 / 1000000 :: rat) = 3600"
    by (simp add: b round_def e)
  have g: "qualityCaption q1080 (Num 3600) = SizeGB (18 / 5)"
    using size_estimate [of 3600 q1080] unfolding r by simp
  have m1: "qualityCaption q1080 (Num 100) = SizeMB 100"
    using size_estimate [of 100 q1080] b by blast
  have m2: "qualityCaption q480 (Num 100) = SizeMB 38"
    using size_estimate [of 100 q480] b by blast
  show ?thesis
    using b g m1 m2 by simp
qed

text \<open>Without a known duration and with an empty end time the range has no duration.\<close>

lemma no_duration_no_estimate:
  assumes "previewDuration st = None" and "endTime st = []" and "startOk (startTime st)"
  shows "downloadDuration st = Num 0"
  using assms
  by (auto simp: downloadDuration_def startOk_def Let_def split: jsnum.splits)

end
